theory Spec2Isabelle
  imports Complex_Main "HOL-Library.Word" "HOL-Library.Monad_Syntax"
begin

section \<open>Adaptive banded Viterbi alignment (nanopolish\_raw\_loader.inl)\<close>

text \<open>
  A shallow embedding of the class \<^verbatim>\<open>AdaptiveBandedViterbi\<close> and of the driver
  \<^verbatim>\<open>generic_banded_simple_hmm\<close>.

  \<^item> C++ \<^verbatim>\<open>int\<close> is modelled by \<open>int\<close>; signed overflow is undefined behaviour in
    the source and is not modelled. \<^verbatim>\<open>size_t\<close> is modelled by \<open>nat\<close>, with the
    wrap-around modulo \<open>2 ^ 64\<close> and the truncation to a 32-bit \<^verbatim>\<open>int\<close> written out
    where the source subtracts from a size or converts one.
  \<^item> \<^verbatim>\<open>float\<close> and \<^verbatim>\<open>double\<close> values are modelled by the datatype \<open>flt\<close>: the two
    infinities, not-a-number, and the finite values by the real number they denote.
    The comparisons are the IEEE 754 ones. The rounding arithmetic is \<^emph>\<open>not\<close> fixed:
    every function that computes with scores takes the arithmetic as a parameter
    (record \<open>fpu\<close>), so each theorem holds for whatever the hardware computes.
  \<^item> An access outside a buffer or vector, a failed \<^verbatim>\<open>assert\<close> and a thrown exception
    are the value \<open>None\<close>.
\<close>

subsection \<open>Floating-point values and their comparisons\<close>

datatype flt = NaN | NegInf | Num real | PosInf

text \<open>\<^verbatim>\<open>a < b\<close>: false as soon as one side is not a number.\<close>

fun flt_lt :: "flt \<Rightarrow> flt \<Rightarrow> bool" where
  "flt_lt NaN b = False"
| "flt_lt a NaN = False"
| "flt_lt NegInf NegInf = False"
| "flt_lt NegInf b = True"
| "flt_lt (Num x) (Num y) = (x < y)"
| "flt_lt (Num x) PosInf = True"
| "flt_lt (Num x) NegInf = False"
| "flt_lt PosInf b = False"

text \<open>\<^verbatim>\<open>a > b\<close>\<close>

definition flt_gt :: "flt \<Rightarrow> flt \<Rightarrow> bool" where
  "flt_gt a b = flt_lt b a"

text \<open>\<^verbatim>\<open>a == b\<close>: not-a-number is equal to nothing, itself included.\<close>

definition flt_eq :: "flt \<Rightarrow> flt \<Rightarrow> bool" where
  "flt_eq a b = (a \<noteq> NaN \<and> b \<noteq> NaN \<and> a = b)"

subsection \<open>Machine integers\<close>

text \<open>Conversion of an \<^verbatim>\<open>int\<close> to \<^verbatim>\<open>size_t\<close> (64 bits).\<close>

definition size_t_of_int :: "int \<Rightarrow> nat" where
  "size_t_of_int i = nat (i mod 2 ^ 64)"

text \<open>Conversion of a \<^verbatim>\<open>size_t\<close> to a 32-bit \<^verbatim>\<open>int\<close>: the low 32 bits, two's complement.\<close>

definition int_of_size_t :: "nat \<Rightarrow> int" where
  "int_of_size_t n = (let m = int n mod 2 ^ 32 in if m < 2 ^ 31 then m else m - 2 ^ 32)"

text \<open>\<^verbatim>\<open>a - b\<close> on \<^verbatim>\<open>size_t\<close> operands below \<open>2 ^ 64\<close>.\<close>

definition size_t_sub :: "nat \<Rightarrow> nat \<Rightarrow> nat" where
  "size_t_sub a b = (a + 2 ^ 64 - b) mod 2 ^ 64"

text \<open>\<^verbatim>\<open>a + b\<close> and \<^verbatim>\<open>a * b\<close> on \<^verbatim>\<open>size_t\<close>.\<close>

definition size_t_add :: "nat \<Rightarrow> nat \<Rightarrow> nat" where
  "size_t_add a b = (a + b) mod 2 ^ 64"

definition size_t_mul :: "nat \<Rightarrow> nat \<Rightarrow> nat" where
  "size_t_mul a b = (a * b) mod 2 ^ 64"

subsection \<open>Data model\<close>

record BandOrigin =
  event_idx :: int
  kmer_idx :: int

text \<open>\<^verbatim>\<open>enum SimpleHMMMovementType\<close>, stored in the trace as \<^verbatim>\<open>uint8_t\<close>.\<close>

definition SHMM_FROM_D :: "8 word" where "SHMM_FROM_D = 0"
definition SHMM_FROM_U :: "8 word" where "SHMM_FROM_U = 1"
definition SHMM_FROM_L :: "8 word" where "SHMM_FROM_L = 2"
definition SHMM_FROM_INVALID :: "8 word" where "SHMM_FROM_INVALID = 3"

text \<open>
  \<^verbatim>\<open>AdaBandedParameters\<close> is declared in a header that is not part of the source at
  hand; the fields the code reads are taken as a record.
\<close>

record AdaBandedParameters =
  p_bandwidth :: nat
  p_skip :: flt
  p_trim :: flt

record AdaptiveBandedViterbi =
  band_scores :: "flt list"
  trace :: "8 word list"
  band_origins :: "BandOrigin list"
  parameters :: AdaBandedParameters
  n_kmers :: nat
  n_events :: nat
  n_bands :: nat
  n_fills :: nat
  bandwidth :: nat

text \<open>Reading a buffer or a vector at an index: outside it the behaviour is undefined.\<close>

definition rd :: "'a list \<Rightarrow> nat \<Rightarrow> 'a option" where
  "rd xs i = (if i < length xs then Some (xs ! i) else None)"

subsection \<open>Band coordinates\<close>

definition get_offset_for_event_in_band :: "AdaptiveBandedViterbi \<Rightarrow> nat \<Rightarrow> int \<Rightarrow> int option" where
  "get_offset_for_event_in_band st band_idx ev =
     do { origin \<leftarrow> rd (band_origins st) band_idx; Some (event_idx origin - ev) }"

definition get_offset_for_kmer_in_band :: "AdaptiveBandedViterbi \<Rightarrow> nat \<Rightarrow> int \<Rightarrow> int option" where
  "get_offset_for_kmer_in_band st band_idx km =
     do { origin \<leftarrow> rd (band_origins st) band_idx; Some (km - kmer_idx origin) }"

definition get_event_at_band_offset :: "AdaptiveBandedViterbi \<Rightarrow> nat \<Rightarrow> int \<Rightarrow> int option" where
  "get_event_at_band_offset st band_idx offset =
     do { origin \<leftarrow> rd (band_origins st) band_idx; Some (event_idx origin - offset) }"

definition get_kmer_at_band_offset :: "AdaptiveBandedViterbi \<Rightarrow> nat \<Rightarrow> int \<Rightarrow> int option" where
  "get_kmer_at_band_offset st band_idx offset =
     do { origin \<leftarrow> rd (band_origins st) band_idx; Some (kmer_idx origin + offset) }"

definition event_kmer_to_band :: "int \<Rightarrow> int \<Rightarrow> int" where
  "event_kmer_to_band ev km = (ev + 1) + (km + 1)"

text \<open>
  \<^verbatim>\<open>band_offset >= 0 && band_offset < this->bandwidth\<close>: the second comparison is
  between an \<^verbatim>\<open>int\<close> and a \<^verbatim>\<open>size_t\<close>, made on \<^verbatim>\<open>size_t\<close>.
\<close>

definition is_offset_valid :: "AdaptiveBandedViterbi \<Rightarrow> int \<Rightarrow> bool" where
  "is_offset_valid st band_offset =
     (band_offset \<ge> 0 \<and> size_t_of_int band_offset < bandwidth st)"

subsection \<open>The banded matrix store\<close>

text \<open>The index \<^verbatim>\<open>band_idx * this->bandwidth + band_offset\<close>, computed on \<^verbatim>\<open>size_t\<close>.\<close>

definition cell_index :: "AdaptiveBandedViterbi \<Rightarrow> nat \<Rightarrow> int \<Rightarrow> nat" where
  "cell_index st band_idx band_offset =
     size_t_add (size_t_mul band_idx (bandwidth st)) (size_t_of_int band_offset)"

definition get :: "AdaptiveBandedViterbi \<Rightarrow> nat \<Rightarrow> int \<Rightarrow> flt option" where
  "get st band_idx band_offset =
     (if is_offset_valid st band_offset
      then rd (band_scores st) (cell_index st band_idx band_offset)
      else Some NegInf)"

definition get_trace :: "AdaptiveBandedViterbi \<Rightarrow> nat \<Rightarrow> int \<Rightarrow> 8 word option" where
  "get_trace st band_idx band_offset =
     (if is_offset_valid st band_offset
      then rd (trace st) (cell_index st band_idx band_offset)
      else Some 0)"

definition set_cell ::
  "AdaptiveBandedViterbi \<Rightarrow> nat \<Rightarrow> int \<Rightarrow> flt \<Rightarrow> 8 word \<Rightarrow> AdaptiveBandedViterbi option" where
  "set_cell st band_idx band_offset val from =
     (let idx = cell_index st band_idx band_offset in
      if idx < length (band_scores st) \<and> idx < length (trace st)
      then Some (st\<lparr>band_scores := (band_scores st)[idx := val],
                    trace := (trace st)[idx := from]\<rparr>)
      else None)"

text \<open>The three-way maximum of \<^verbatim>\<open>set3\<close> and the move it records.\<close>

definition set3_max_from :: "flt \<Rightarrow> flt \<Rightarrow> flt \<Rightarrow> flt \<times> 8 word" where
  "set3_max_from score_d score_u score_l =
     (let max_score = score_d;
          from = SHMM_FROM_D;
          max_score = (if flt_gt score_u max_score then score_u else max_score);
          from = (if flt_eq max_score score_u then SHMM_FROM_U else from);
          max_score = (if flt_gt score_l max_score then score_l else max_score);
          from = (if flt_eq max_score score_l then SHMM_FROM_L else from)
      in (max_score, from))"

definition set3 ::
  "AdaptiveBandedViterbi \<Rightarrow> nat \<Rightarrow> int \<Rightarrow> flt \<Rightarrow> flt \<Rightarrow> flt \<Rightarrow> AdaptiveBandedViterbi option" where
  "set3 st band_idx band_offset score_d score_u score_l =
     (case set3_max_from score_d score_u score_l of
        (max_score, from) \<Rightarrow>
          do { st' \<leftarrow> set_cell st band_idx band_offset max_score from;
               Some (st'\<lparr>n_fills := size_t_add (n_fills st') 1\<rparr>) })"


definition move_band_down :: "BandOrigin \<Rightarrow> BandOrigin" where
  "move_band_down curr_origin =
     \<lparr>event_idx = event_idx curr_origin + 1, kmer_idx = kmer_idx curr_origin\<rparr>"

definition move_band_right :: "BandOrigin \<Rightarrow> BandOrigin" where
  "move_band_right curr_origin =
     \<lparr>event_idx = event_idx curr_origin, kmer_idx = kmer_idx curr_origin + 1\<rparr>"

text \<open>The assignment \<^verbatim>\<open>this->band_origins[band_idx] = origin\<close>.\<close>

definition set_origin ::
  "AdaptiveBandedViterbi \<Rightarrow> nat \<Rightarrow> BandOrigin \<Rightarrow> AdaptiveBandedViterbi option" where
  "set_origin st band_idx origin =
     (if band_idx < length (band_origins st)
      then Some (st\<lparr>band_origins := (band_origins st)[band_idx := origin]\<rparr>)
      else None)"

text \<open>\<^verbatim>\<open>std::vector::resize\<close>: the elements kept, new ones value-initialised.\<close>

definition resize :: "BandOrigin list \<Rightarrow> nat \<Rightarrow> BandOrigin list" where
  "resize xs n = take n xs @ replicate (n - length xs) \<lparr>event_idx = 0, kmer_idx = 0\<rparr>"

text \<open>
  \<^verbatim>\<open>initialize\<close>. The two buffers hold \<^verbatim>\<open>n_bands * bandwidth\<close> cells each, and the
  nested loop sets every one of them to \<^verbatim>\<open>(-INFINITY, 0)\<close>; a failed allocation
  leaves the process and is not modelled.
\<close>

definition initialize ::
  "AdaptiveBandedViterbi \<Rightarrow> nat \<Rightarrow> nat \<Rightarrow> AdaBandedParameters \<Rightarrow> AdaptiveBandedViterbi option" where
  "initialize st n_ev n_km ps =
     (let bw = p_bandwidth ps;
          nb = size_t_add (size_t_add n_ev 1) (size_t_add n_km 1);
          st1 = st\<lparr>band_scores := replicate (nb * bw) NegInf,
                    trace := replicate (nb * bw) 0,
                    band_origins := resize (band_origins st) nb,
                    parameters := ps,
                    n_kmers := n_km,
                    n_events := n_ev,
                    n_bands := nb,
                    bandwidth := bw\<rparr>;
          half_bandwidth = int_of_size_t (bw div 2)
      in do {
        st2 \<leftarrow> set_origin st1 0
                 \<lparr>event_idx = half_bandwidth - 1, kmer_idx = - 1 - half_bandwidth\<rparr>;
        origin0 \<leftarrow> rd (band_origins st2) 0;
        set_origin st2 1 (move_band_down origin0)
      })"

definition get_num_bands :: "AdaptiveBandedViterbi \<Rightarrow> int" where
  "get_num_bands st = int_of_size_t (n_bands st)"

definition get_num_fills :: "AdaptiveBandedViterbi \<Rightarrow> int" where
  "get_num_fills st = int_of_size_t (n_fills st)"

subsection \<open>Adaptive band placement\<close>

definition determine_band_origin :: "AdaptiveBandedViterbi \<Rightarrow> nat \<Rightarrow> AdaptiveBandedViterbi option" where
  "determine_band_origin st band_idx =
     do {
       ll \<leftarrow> get st (size_t_sub band_idx 1) 0;
       ur \<leftarrow> get st (size_t_sub band_idx 1) (int_of_size_t (size_t_sub (bandwidth st) 1));
       let ll_ob = flt_eq ll NegInf;
       let ur_ob = flt_eq ur NegInf;
       let right = (if ll_ob \<and> ur_ob then band_idx mod 2 = 1 else flt_lt ll ur);
       prev \<leftarrow> rd (band_origins st) (size_t_sub band_idx 1);
       if right then set_origin st band_idx (move_band_right prev)
       else set_origin st band_idx (move_band_down prev)
     }"

definition get_offset_range_for_band :: "AdaptiveBandedViterbi \<Rightarrow> nat \<Rightarrow> (int \<times> int) option" where
  "get_offset_range_for_band st band_idx =
     do {
       kmer_min_offset \<leftarrow> get_offset_for_kmer_in_band st band_idx 0;
       kmer_max_offset \<leftarrow> get_offset_for_kmer_in_band st band_idx (int_of_size_t (n_kmers st));
       event_min_offset \<leftarrow>
         get_offset_for_event_in_band st band_idx (int_of_size_t (size_t_sub (n_events st) 1));
       event_max_offset \<leftarrow> get_offset_for_event_in_band st band_idx (- 1);
       let min_offset = max kmer_min_offset event_min_offset;
       let min_offset = max min_offset 0;
       let max_offset = min kmer_max_offset event_max_offset;
       let max_offset = min max_offset (int_of_size_t (bandwidth st));
       Some (min_offset, max_offset)
     }"

subsection \<open>Arithmetic and loops\<close>

text \<open>
  The floating-point operations the code performs, as parameters: \<open>d_\<close> on
  \<^verbatim>\<open>double\<close>, \<open>f_\<close> on \<^verbatim>\<open>float\<close>, \<open>narrow\<close> the conversion from \<^verbatim>\<open>double\<close> to
  \<^verbatim>\<open>float\<close>, \<open>size_d\<close>, \<open>size_f\<close> and \<open>int_d\<close> the conversions from integers. The
  conversion from \<^verbatim>\<open>float\<close> to \<^verbatim>\<open>double\<close> is exact and leaves the value as it is.
\<close>

record fpu =
  d_add :: "flt \<Rightarrow> flt \<Rightarrow> flt"
  d_sub :: "flt \<Rightarrow> flt \<Rightarrow> flt"
  d_mul :: "flt \<Rightarrow> flt \<Rightarrow> flt"
  d_div :: "flt \<Rightarrow> flt \<Rightarrow> flt"
  d_log :: "flt \<Rightarrow> flt"
  d_exp :: "flt \<Rightarrow> flt"
  narrow :: "flt \<Rightarrow> flt"
  f_add :: "flt \<Rightarrow> flt \<Rightarrow> flt"
  f_mul :: "flt \<Rightarrow> flt \<Rightarrow> flt"
  size_d :: "nat \<Rightarrow> flt"
  size_f :: "nat \<Rightarrow> flt"
  int_d :: "int \<Rightarrow> flt"

text \<open>A \<^verbatim>\<open>for\<close> loop over the values its variable takes; it stops at a fault.\<close>

fun for_loop :: "'i list \<Rightarrow> ('i \<Rightarrow> 's \<Rightarrow> 's option) \<Rightarrow> 's \<Rightarrow> 's option" where
  "for_loop [] body s = Some s"
| "for_loop (i # is) body s =
     (case body i s of None \<Rightarrow> None | Some s' \<Rightarrow> for_loop is body s')"

subsection \<open>Traceback\<close>

text \<open>
  \<^verbatim>\<open>AlignedPair\<close> is declared elsewhere; \<^verbatim>\<open>backtrack\<close> builds each one as
  \<^verbatim>\<open>{curr_kmer_idx, curr_event_idx}\<close>.
\<close>

type_synonym AlignedPair = "int \<times> int"

text \<open>
  One iteration of the scan for the best cell of the last k-mer. The offset is held
  in a \<^verbatim>\<open>size_t\<close> and handed to parameters of type \<^verbatim>\<open>int\<close>, which gives the
  \<^verbatim>\<open>int\<close> back.
\<close>

definition backtrack_scan_step ::
  "fpu \<Rightarrow> AdaptiveBandedViterbi \<Rightarrow> flt \<Rightarrow> int \<Rightarrow> int \<Rightarrow> flt \<times> int \<Rightarrow> (flt \<times> int) option" where
  "backtrack_scan_step fp st lp_trim curr_kmer_idx ev acc =
     (case acc of (max_score, curr_event_idx) \<Rightarrow>
        do {
          let band_idx = size_t_of_int (event_kmer_to_band ev curr_kmer_idx);
          offset \<leftarrow> get_offset_for_event_in_band st band_idx ev;
          if is_offset_valid st offset
          then do {
            v \<leftarrow> get st band_idx offset;
            let s = f_add fp v
                      (f_mul fp (size_f fp (size_t_sub (n_events st) (size_t_of_int ev))) lp_trim);
            if flt_gt s max_score then Some (s, ev) else Some (max_score, curr_event_idx)
          }
          else Some (max_score, curr_event_idx)
        })"

definition backtrack_scan :: "fpu \<Rightarrow> AdaptiveBandedViterbi \<Rightarrow> (flt \<times> int) option" where
  "backtrack_scan fp st =
     (let max_score = NegInf;
          curr_event_idx = 0;
          curr_kmer_idx = int_of_size_t (size_t_sub (n_kmers st) 1);
          lp_trim = narrow fp (d_log fp (p_trim (parameters st)))
      in for_loop (map int [0..<n_events st])
           (backtrack_scan_step fp st lp_trim curr_kmer_idx) (max_score, curr_event_idx))"

text \<open>The backward walk: the \<^verbatim>\<open>while\<close> loop of \<^verbatim>\<open>backtrack\<close>.\<close>

function backtrack_walk ::
  "AdaptiveBandedViterbi \<Rightarrow> int \<Rightarrow> int \<Rightarrow> bool \<Rightarrow> AlignedPair list \<Rightarrow> AlignedPair list option" where
  "backtrack_walk st curr_kmer_idx curr_event_idx is_skip out =
     (if curr_kmer_idx \<ge> 0 \<and> curr_event_idx \<ge> 0
      then
        (let out' = (if \<not> is_skip then out @ [(curr_kmer_idx, curr_event_idx)] else out);
             band_idx = size_t_of_int (event_kmer_to_band curr_event_idx curr_kmer_idx)
         in case get_offset_for_event_in_band st band_idx curr_event_idx of
              None \<Rightarrow> None
            | Some offset \<Rightarrow>
               (case get_offset_for_kmer_in_band st band_idx curr_kmer_idx of
                  None \<Rightarrow> None
                | Some kmer_offset \<Rightarrow>
                   if kmer_offset \<noteq> offset then None
                   else
                    (case get_trace st band_idx offset of
                       None \<Rightarrow> None
                     | Some from \<Rightarrow>
                        if from = SHMM_FROM_D
                        then backtrack_walk st (curr_kmer_idx - 1) (curr_event_idx - 1) False out'
                        else if from = SHMM_FROM_U
                        then backtrack_walk st curr_kmer_idx (curr_event_idx - 1) False out'
                        else backtrack_walk st (curr_kmer_idx - 1) curr_event_idx True out')))
      else Some out)"
  by pat_completeness auto
termination
  by (relation "measure (\<lambda>(st, k, e, sk, out). nat (k + e + 2))") auto

definition backtrack :: "fpu \<Rightarrow> AdaptiveBandedViterbi \<Rightarrow> AlignedPair list option" where
  "backtrack fp st =
     do {
       (max_score, curr_event_idx) \<leftarrow> backtrack_scan fp st;
       out \<leftarrow> backtrack_walk st (int_of_size_t (size_t_sub (n_kmers st) 1)) curr_event_idx False [];
       Some (rev out)
     }"


subsection \<open>The recurrence driver\<close>

text \<open>
  What \<^verbatim>\<open>generic_banded_simple_hmm\<close> takes from its collaborators: the number of
  events \<^verbatim>\<open>read.events[strand_idx].size()\<close>, the length of the candidate string,
  the k-mer width \<^verbatim>\<open>pore_model.k\<close>, the rank of the k-mer that starts at a position
  (\<^verbatim>\<open>alphabet->kmer_rank(sequence.substr(i, k).c_str(), k)\<close>) and the emission score
  \<^verbatim>\<open>log_probability_match_r9\<close> of a k-mer rank and an event index.
\<close>

record hmm_input =
  in_n_events :: nat
  in_sequence_size :: nat
  in_k :: nat
  in_kmer_rank :: "nat \<Rightarrow> nat"
  in_emission :: "nat \<Rightarrow> int \<Rightarrow> flt"

text \<open>The transition penalties, as the driver computes them.\<close>

record penalties =
  lp_skip :: flt
  lp_stay :: flt
  lp_step :: flt
  lp_trim :: flt

definition transition_penalties :: "fpu \<Rightarrow> nat \<Rightarrow> nat \<Rightarrow> AdaBandedParameters \<Rightarrow> penalties" where
  "transition_penalties fp n_ev n_km ps =
     (let events_per_kmer = d_div fp (size_d fp n_ev) (size_d fp n_km);
          p_stay = d_sub fp (Num 1) (d_div fp (Num 1) events_per_kmer);
          lp_skip = d_log fp (p_skip ps);
          lp_stay = d_log fp p_stay;
          lp_step = d_log fp (d_sub fp (d_sub fp (Num 1) (d_exp fp lp_skip)) (d_exp fp lp_stay));
          lp_trim = d_log fp (p_trim ps)
      in \<lparr>lp_skip = lp_skip, lp_stay = lp_stay, lp_step = lp_step, lp_trim = lp_trim\<rparr>)"

text \<open>
  The three candidate scores of the cell at \<^verbatim>\<open>(band_idx, offset)\<close>, as the body of
  the inner loop computes them before it calls \<^verbatim>\<open>set3\<close>. \<^verbatim>\<open>score_d\<close> and
  \<^verbatim>\<open>score_u\<close> are \<^verbatim>\<open>float\<close> variables assigned from a \<^verbatim>\<open>double\<close> sum; \<^verbatim>\<open>score_l\<close>
  is a \<^verbatim>\<open>double\<close>.
\<close>

definition candidate_scores ::
  "fpu \<Rightarrow> penalties \<Rightarrow> (nat \<Rightarrow> int \<Rightarrow> flt) \<Rightarrow> nat list \<Rightarrow> AdaptiveBandedViterbi \<Rightarrow> int \<Rightarrow> int
     \<Rightarrow> (flt \<times> flt \<times> flt) option" where
  "candidate_scores fp pen emission kmer_ranks st band_idx offset =
     do {
       ev \<leftarrow> get_event_at_band_offset st (size_t_of_int band_idx) offset;
       km \<leftarrow> get_kmer_at_band_offset st (size_t_of_int band_idx) offset;
       kmer_rank \<leftarrow> rd kmer_ranks (size_t_of_int km);
       offset_up \<leftarrow> get_offset_for_event_in_band st (size_t_of_int (band_idx - 1)) (ev - 1);
       offset_left \<leftarrow> get_offset_for_kmer_in_band st (size_t_of_int (band_idx - 1)) (km - 1);
       offset_diag \<leftarrow> get_offset_for_kmer_in_band st (size_t_of_int (band_idx - 2)) (km - 1);
       up \<leftarrow> get st (size_t_of_int (band_idx - 1)) offset_up;
       left \<leftarrow> get st (size_t_of_int (band_idx - 1)) offset_left;
       diag \<leftarrow> get st (size_t_of_int (band_idx - 2)) offset_diag;
       let lp_emission = emission kmer_rank ev;
       let score_d = narrow fp (d_add fp (d_add fp diag (lp_step pen)) lp_emission);
       let score_u = narrow fp (d_add fp (d_add fp up (lp_stay pen)) lp_emission);
       let score_l = d_add fp left
                       (if km > 0 then lp_skip pen else d_add fp (lp_step pen) lp_emission);
       Some (score_d, score_u, score_l)
     }"

text \<open>The body of the inner loop; \<^verbatim>\<open>set3\<close> takes \<^verbatim>\<open>score_l\<close> as a \<^verbatim>\<open>float\<close>.\<close>

definition fill_cell ::
  "fpu \<Rightarrow> penalties \<Rightarrow> (nat \<Rightarrow> int \<Rightarrow> flt) \<Rightarrow> nat list \<Rightarrow> int \<Rightarrow> int \<Rightarrow> AdaptiveBandedViterbi
     \<Rightarrow> AdaptiveBandedViterbi option" where
  "fill_cell fp pen emission kmer_ranks band_idx offset st =
     do {
       (score_d, score_u, score_l) \<leftarrow> candidate_scores fp pen emission kmer_ranks st band_idx offset;
       set3 st (size_t_of_int band_idx) offset score_d score_u (narrow fp score_l)
     }"

text \<open>The trim state of a band, filled when it lies within the band.\<close>

definition fill_trim ::
  "fpu \<Rightarrow> penalties \<Rightarrow> nat \<Rightarrow> int \<Rightarrow> AdaptiveBandedViterbi \<Rightarrow> AdaptiveBandedViterbi option" where
  "fill_trim fp pen n_ev band_idx st =
     do {
       trim_offset \<leftarrow> get_offset_for_kmer_in_band st (size_t_of_int band_idx) (- 1);
       if is_offset_valid st trim_offset
       then do {
         ev \<leftarrow> get_event_at_band_offset st (size_t_of_int band_idx) trim_offset;
         if ev \<ge> 0 \<and> size_t_of_int ev < n_ev
         then set_cell st (size_t_of_int band_idx) trim_offset
                (narrow fp (d_mul fp (lp_trim pen) (int_d fp (ev + 1)))) SHMM_FROM_U
         else set_cell st (size_t_of_int band_idx) trim_offset NegInf 0
       }
       else Some st
     }"

text \<open>The body of the loop over the bands.\<close>

definition fill_band ::
  "fpu \<Rightarrow> penalties \<Rightarrow> (nat \<Rightarrow> int \<Rightarrow> flt) \<Rightarrow> nat list \<Rightarrow> nat \<Rightarrow> int \<Rightarrow> AdaptiveBandedViterbi
     \<Rightarrow> AdaptiveBandedViterbi option" where
  "fill_band fp pen emission kmer_ranks n_ev band_idx st =
     do {
       st1 \<leftarrow> determine_band_origin st (size_t_of_int band_idx);
       st2 \<leftarrow> fill_trim fp pen n_ev band_idx st1;
       (min_offset, max_offset) \<leftarrow> get_offset_range_for_band st2 (size_t_of_int band_idx);
       for_loop [min_offset..max_offset - 1] (fill_cell fp pen emission kmer_ranks band_idx) st2
     }"

text \<open>The seeds: the start cell of band 0 and the first trimmed event of band 1.\<close>

definition seed_bands ::
  "fpu \<Rightarrow> penalties \<Rightarrow> AdaptiveBandedViterbi \<Rightarrow> AdaptiveBandedViterbi option" where
  "seed_bands fp pen st =
     do {
       start_cell_offset \<leftarrow> get_offset_for_kmer_in_band st 0 (- 1);
       start_event_offset \<leftarrow> get_offset_for_event_in_band st 0 (- 1);
       if \<not> is_offset_valid st start_cell_offset \<or> start_event_offset \<noteq> start_cell_offset
       then None
       else do {
         st1 \<leftarrow> set_cell st 0 start_cell_offset (Num 0) 0;
         first_trim_offset \<leftarrow> get_offset_for_event_in_band st1 1 0;
         first_trim_kmer \<leftarrow> get_kmer_at_band_offset st1 1 first_trim_offset;
         if first_trim_kmer \<noteq> - 1 \<or> \<not> is_offset_valid st1 first_trim_offset
         then None
         else set_cell st1 1 first_trim_offset (narrow fp (lp_trim pen)) SHMM_FROM_U
       }
     }"

text \<open>
  The most elements a \<^verbatim>\<open>std::vector<size_t>\<close> can have, \<^verbatim>\<open>PTRDIFF_MAX / sizeof(size_t)\<close>
  with the 64-bit \<^verbatim>\<open>size_t\<close> taken throughout; the constructor throws
  \<^verbatim>\<open>std::length_error\<close> when asked for more. As in \<^verbatim>\<open>initialize\<close>, an allocation that
  fails for want of memory is not modelled.
\<close>

definition vector_max_size :: nat where
  "vector_max_size = 2 ^ 60 - 1"

text \<open>
  \<^verbatim>\<open>std::vector<size_t> kmer_ranks(n_kmers)\<close> and the loop that fills it.
  \<^verbatim>\<open>sequence.substr(i, k)\<close> throws \<^verbatim>\<open>std::out_of_range\<close> when \<^verbatim>\<open>i\<close> lies beyond the end of
  the string. So a string shorter than \<open>k - 1\<close>, for which \<^verbatim>\<open>n_kmers\<close> has wrapped around,
  ends the driver here.
\<close>

definition precompute_kmer_ranks :: "hmm_input \<Rightarrow> nat \<Rightarrow> nat list option" where
  "precompute_kmer_ranks inp n_km =
     (if n_km > vector_max_size then None
      else for_loop [0..<n_km]
             (\<lambda>i kmer_ranks.
                if i > in_sequence_size inp then None
                else Some (kmer_ranks[i := in_kmer_rank inp i]))
             (replicate n_km 0))"

definition generic_banded_simple_hmm ::
  "fpu \<Rightarrow> hmm_input \<Rightarrow> AdaBandedParameters \<Rightarrow> AdaptiveBandedViterbi \<Rightarrow> AdaptiveBandedViterbi option" where
  "generic_banded_simple_hmm fp inp ps hmm_result =
     (let k = in_k inp;
          n_ev = in_n_events inp;
          n_km = size_t_add (size_t_sub (in_sequence_size inp) k) 1;
          pen = transition_penalties fp n_ev n_km ps
      in do {
        kmer_ranks \<leftarrow> precompute_kmer_ranks inp n_km;
        st0 \<leftarrow> initialize hmm_result n_ev n_km ps;
        st1 \<leftarrow> seed_bands fp pen st0;
        for_loop [2..get_num_bands st1 - 1]
          (fill_band fp pen (in_emission inp) kmer_ranks n_ev) st1
      })"

text \<open>
  An arithmetic to run the model with: the operations on the extended reals, without
  rounding. It agrees with IEEE 754 arithmetic wherever the exact result is a value of
  the format.
\<close>

fun ideal_add :: "flt \<Rightarrow> flt \<Rightarrow> flt" where
  "ideal_add NaN b = NaN"
| "ideal_add a NaN = NaN"
| "ideal_add NegInf PosInf = NaN"
| "ideal_add PosInf NegInf = NaN"
| "ideal_add NegInf b = NegInf"
| "ideal_add a NegInf = NegInf"
| "ideal_add PosInf b = PosInf"
| "ideal_add a PosInf = PosInf"
| "ideal_add (Num x) (Num y) = Num (x + y)"

fun ideal_neg :: "flt \<Rightarrow> flt" where
  "ideal_neg NaN = NaN"
| "ideal_neg NegInf = PosInf"
| "ideal_neg PosInf = NegInf"
| "ideal_neg (Num x) = Num (- x)"

definition ideal_sub :: "flt \<Rightarrow> flt \<Rightarrow> flt" where
  "ideal_sub a b = ideal_add a (ideal_neg b)"

text \<open>The sign of a value that is not NaN: \<open>- 1\<close>, \<open>0\<close> or \<open>1\<close>.\<close>

fun ideal_sgn :: "flt \<Rightarrow> int" where
  "ideal_sgn NegInf = - 1"
| "ideal_sgn PosInf = 1"
| "ideal_sgn (Num x) = (if x < 0 then - 1 else if x = 0 then 0 else 1)"
| "ideal_sgn NaN = 0"

definition ideal_mul :: "flt \<Rightarrow> flt \<Rightarrow> flt" where
  "ideal_mul a b =
     (if a = NaN \<or> b = NaN then NaN
      else case (a, b) of
        (Num x, Num y) \<Rightarrow> Num (x * y)
      | _ \<Rightarrow> (if ideal_sgn a * ideal_sgn b = 0 then NaN
              else if ideal_sgn a * ideal_sgn b < 0 then NegInf else PosInf))"

text \<open>Division; a zero is taken as positive.\<close>

definition ideal_div :: "flt \<Rightarrow> flt \<Rightarrow> flt" where
  "ideal_div a b =
     (if a = NaN \<or> b = NaN then NaN
      else case (a, b) of
        (Num x, Num y) \<Rightarrow>
          (if y \<noteq> 0 then Num (x / y)
           else if x = 0 then NaN else if x < 0 then NegInf else PosInf)
      | (Num x, _) \<Rightarrow> Num 0
      | (_, Num y) \<Rightarrow> (if ideal_sgn a * (if y < 0 then - 1 else 1) < 0 then NegInf else PosInf)
      | _ \<Rightarrow> NaN)"

fun ideal_log :: "flt \<Rightarrow> flt" where
  "ideal_log NaN = NaN"
| "ideal_log NegInf = NaN"
| "ideal_log PosInf = PosInf"
| "ideal_log (Num x) = (if x < 0 then NaN else if x = 0 then NegInf else Num (ln x))"

fun ideal_exp :: "flt \<Rightarrow> flt" where
  "ideal_exp NaN = NaN"
| "ideal_exp NegInf = Num 0"
| "ideal_exp PosInf = PosInf"
| "ideal_exp (Num x) = Num (exp x)"

definition ideal_fpu :: fpu where
  "ideal_fpu =
     \<lparr>d_add = ideal_add, d_sub = ideal_sub, d_mul = ideal_mul, d_div = ideal_div,
      d_log = ideal_log, d_exp = ideal_exp, narrow = (\<lambda>x. x),
      f_add = ideal_add, f_mul = ideal_mul,
      size_d = (\<lambda>n. Num (real n)), size_f = (\<lambda>n. Num (real n)),
      int_d = (\<lambda>i. Num (real_of_int i))\<rparr>"


subsection \<open>A small run\<close>

text \<open>
  The object as its constructor leaves it; the members the constructor does not set
  are given zero values.
\<close>

definition fresh_result :: AdaptiveBandedViterbi where
  "fresh_result =
     \<lparr>band_scores = [], trace = [], band_origins = [],
      parameters = \<lparr>p_bandwidth = 0, p_skip = Num 0, p_trim = Num 0\<rparr>,
      n_kmers = 0, n_events = 0, n_bands = 0, n_fills = 0, bandwidth = 0\<rparr>"

text \<open>
  Two events against a candidate string of six symbols with \<open>k = 5\<close> (two k-mers), every
  emission score \<open>0\<close>, bandwidth \<open>2\<close>, and both probabilities one half.
\<close>

definition example_params :: AdaBandedParameters where
  "example_params = \<lparr>p_bandwidth = 2, p_skip = Num (1 / 2), p_trim = Num (1 / 2)\<rparr>"

definition example_input :: hmm_input where
  "example_input =
     \<lparr>in_n_events = 2, in_sequence_size = 6, in_k = 5,
      in_kmer_rank = (\<lambda>i. i), in_emission = (\<lambda>r e. Num 0)\<rparr>"

text \<open>The store the driver leaves on that input (lemma \<open>example_run\<close>).\<close>

definition example_result :: AdaptiveBandedViterbi where
  "example_result =
     \<lparr>band_scores =
        [NegInf, Num 0,
         NegInf, Num (ln (1 / 2)),
         Num (2 * ln (1 / 2)), Num (ln (1 / 2)),
         Num (2 * ln (1 / 2)), Num (2 * ln (1 / 2)),
         NegInf, Num (2 * ln (1 / 2)),
         NegInf, NegInf],
      trace = [0, 0, 0, 1, 1, 0, 0, 2, 0, 0, 0, 0],
      band_origins =
        [\<lparr>event_idx = 0, kmer_idx = - 2\<rparr>, \<lparr>event_idx = 1, kmer_idx = - 2\<rparr>,
         \<lparr>event_idx = 1, kmer_idx = - 1\<rparr>, \<lparr>event_idx = 1, kmer_idx = 0\<rparr>,
         \<lparr>event_idx = 2, kmer_idx = 0\<rparr>, \<lparr>event_idx = 2, kmer_idx = 1\<rparr>],
      parameters = example_params,
      n_kmers = 2, n_events = 2, n_bands = 6, n_fills = 4, bandwidth = 2\<rparr>"

text \<open>The transition penalties of that input (lemma \<open>example_transition_penalties\<close>).\<close>

definition example_penalties :: penalties where
  "example_penalties =
     \<lparr>lp_skip = Num (ln (1 / 2)), lp_stay = NegInf,
      lp_step = Num (ln (1 / 2)), lp_trim = Num (ln (1 / 2))\<rparr>"

text \<open>A candidate string one symbol shorter than \<open>k\<close>: one event, no k-mer.\<close>

definition no_kmers_input :: hmm_input where
  "no_kmers_input =
     \<lparr>in_n_events = 1, in_sequence_size = 4, in_k = 5,
      in_kmer_rank = (\<lambda>i. i), in_emission = (\<lambda>r e. Num 0)\<rparr>"

text \<open>No event, and a candidate string of \<open>k\<close> symbols: one k-mer.\<close>

definition no_events_input :: hmm_input where
  "no_events_input =
     \<lparr>in_n_events = 0, in_sequence_size = 5, in_k = 5,
      in_kmer_rank = (\<lambda>i. i), in_emission = (\<lambda>r e. Num 0)\<rparr>"

text \<open>
  Four events against four k-mers; the emission probability is \<open>2\<^sup>-\<^sup>9\<close> for the first
  three events and \<open>1\<close> for the last, whatever the k-mer; the skip probability is one
  half and the trim probability one sixteenth. The bandwidth is left open.
\<close>

definition score_input :: hmm_input where
  "score_input =
     \<lparr>in_n_events = 4, in_sequence_size = 8, in_k = 5,
      in_kmer_rank = (\<lambda>i. i),
      in_emission = (\<lambda>r e. if e = 3 then Num 0 else Num (9 * ln (1 / 2)))\<rparr>"

definition score_params :: "nat \<Rightarrow> AdaBandedParameters" where
  "score_params bw = \<lparr>p_bandwidth = bw, p_skip = Num (1 / 2), p_trim = Num (1 / 16)\<rparr>"

subsection \<open>The termination score of an event\<close>

text \<open>
  What one iteration of the scan of \<^verbatim>\<open>backtrack\<close> compares with \<^verbatim>\<open>max_score\<close>: the
  stored score of the cell of the event and the last k-mer plus the penalty for
  trimming the events after it, when that cell lies in its band.
\<close>

definition termination_score :: "fpu \<Rightarrow> AdaptiveBandedViterbi \<Rightarrow> int \<Rightarrow> flt option" where
  "termination_score fp st ev =
     (let band_idx = size_t_of_int
            (event_kmer_to_band ev (int_of_size_t (size_t_sub (n_kmers st) 1)));
          lp_trim = narrow fp (d_log fp (p_trim (parameters st)))
      in case get_offset_for_event_in_band st band_idx ev of
           None \<Rightarrow> None
         | Some offset \<Rightarrow>
            if is_offset_valid st offset
            then map_option
                   (\<lambda>v. f_add fp v
                      (f_mul fp (size_f fp (size_t_sub (n_events st) (size_t_of_int ev))) lp_trim))
                   (get st band_idx offset)
            else None)"

subsection \<open>Invariants of the fill\<close>

text \<open>
  What no operation after \<open>initialize\<close> changes: the sizes, the parameters and the
  lengths of the two buffers and of the vector of origins.
\<close>

definition shape :: "AdaptiveBandedViterbi \<Rightarrow> nat \<times> nat \<times> nat \<times> nat \<times> AdaBandedParameters \<times> nat \<times> nat \<times> nat" where
  "shape st = (n_kmers st, n_events st, n_bands st, bandwidth st, parameters st,
               length (band_scores st), length (trace st), length (band_origins st))"

text \<open>
  The origins of the bands below \<open>j\<close> are placed: each is the previous one moved down or
  right, and the coordinates of the origin of band \<open>i\<close> add up to \<open>i - 2\<close>.
\<close>

definition origins_ok :: "BandOrigin list \<Rightarrow> nat \<Rightarrow> bool" where
  "origins_ok os j \<longleftrightarrow>
     j \<le> length os \<and>
     (\<forall>i<j. event_idx (os ! i) + kmer_idx (os ! i) + 2 = int i) \<and>
     (\<forall>i. Suc i < j \<longrightarrow>
        os ! Suc i = move_band_down (os ! i) \<or> os ! Suc i = move_band_right (os ! i))"

text \<open>A store of the right sizes, small enough for the index arithmetic not to wrap.\<close>

definition store_ok :: "AdaptiveBandedViterbi \<Rightarrow> bool" where
  "store_ok st \<longleftrightarrow>
     length (band_scores st) = n_bands st * bandwidth st \<and>
     length (trace st) = n_bands st * bandwidth st \<and>
     length (band_origins st) = n_bands st \<and>
     n_bands st * bandwidth st < 2 ^ 64 \<and> n_bands st < 2 ^ 31 \<and> bandwidth st < 2 ^ 31"

subsection \<open>Cells never filled\<close>

text \<open>
  The store changes through \<^verbatim>\<open>initialize\<close>, \<^verbatim>\<open>set\<close>, \<^verbatim>\<open>set3\<close> and the assignment of a band
  origin, and through nothing else. The cell at index \<open>idx\<close> of the two buffers is never
  filled in a store that \<^verbatim>\<open>initialize\<close> has set up and in which every \<^verbatim>\<open>set\<close> and \<^verbatim>\<open>set3\<close>
  since then has written another cell.
\<close>

inductive never_filled :: "nat \<Rightarrow> AdaptiveBandedViterbi \<Rightarrow> bool" for idx :: nat where
  after_initialize:
    "initialize st0 n_ev n_km ps = Some st \<Longrightarrow> idx < n_bands st * bandwidth st
       \<Longrightarrow> never_filled idx st"
| after_set:
    "never_filled idx st \<Longrightarrow> set_cell st band_idx band_offset val from = Some st'
       \<Longrightarrow> cell_index st band_idx band_offset \<noteq> idx \<Longrightarrow> never_filled idx st'"
| after_set3:
    "never_filled idx st \<Longrightarrow> set3 st band_idx band_offset score_d score_u score_l = Some st'
       \<Longrightarrow> cell_index st band_idx band_offset \<noteq> idx \<Longrightarrow> never_filled idx st'"
| after_set_origin:
    "never_filled idx st \<Longrightarrow> set_origin st band_idx origin = Some st'
       \<Longrightarrow> never_filled idx st'"

text \<open>
  The cell at offset \<open>n\<close> of a band belongs neither to the trim column (k-mer index
  \<open>- 1\<close>) nor to the grid of the events and the k-mers. These are the cells within the
  bands that the driver does not fill (lemma \<open>driver_never_filled\<close>).
\<close>

definition outside_grid :: "AdaptiveBandedViterbi \<Rightarrow> nat \<Rightarrow> nat \<Rightarrow> bool" where
  "outside_grid st band_idx n =
     (let ev = event_idx (band_origins st ! band_idx) - int n;
          km = kmer_idx (band_origins st ! band_idx) + int n
      in km \<noteq> - 1 \<and> \<not> (0 \<le> km \<and> km < int (n_kmers st) \<and> 0 \<le> ev \<and> ev < int (n_events st)))"

text \<open>
  The invariant of the loop over the bands, before band \<open>j\<close>: no cell of a band from \<open>j\<close>
  on has been filled, and in the bands below \<open>j\<close> none outside the grid.
\<close>

definition unfilled_inv :: "nat \<Rightarrow> AdaptiveBandedViterbi \<Rightarrow> bool" where
  "unfilled_inv j st \<longleftrightarrow>
     (\<forall>b n. b < n_bands st \<longrightarrow> n < bandwidth st \<longrightarrow> (b < j \<longrightarrow> outside_grid st b n)
        \<longrightarrow> never_filled (b * bandwidth st + n) st)"

subsection \<open>The invariant of the backward walk\<close>

text \<open>
  At the head of the \<^verbatim>\<open>while\<close> loop of \<^verbatim>\<open>backtrack\<close>, with \<open>K\<close> the k-mer index the
  walk started from: the pairs pushed so far descend, strictly in the event index, and
  the current position lies below all of them, strictly in the event index unless the
  last move was a skip.
\<close>

definition walk_inv :: "int \<Rightarrow> int \<Rightarrow> int \<Rightarrow> bool \<Rightarrow> AlignedPair list \<Rightarrow> bool" where
  "walk_inv K k e is_skip out \<longleftrightarrow>
     k \<le> K \<and>
     sorted_wrt (\<lambda>p q. snd q < snd p \<and> fst q \<le> fst p) out \<and>
     (\<forall>p \<in> set out. 0 \<le> fst p \<and> fst p \<le> K \<and> k \<le> fst p \<and>
        (if is_skip then e \<le> snd p else e < snd p))"

section \<open>Properties\<close>

subsection \<open>Comparisons and machine integers\<close>

lemma flt_lt_irrefl: "\<not> flt_lt a a"
  by (cases a) auto

lemma size_t_of_int_of_nat: "n < 2 ^ 64 \<Longrightarrow> size_t_of_int (int n) = n"
proof -
  assume "n < 2 ^ 64"
  have "int n mod 2 ^ 64 = int (n mod 2 ^ 64)" by (simp add: zmod_int)
  then show ?thesis using \<open>n < 2 ^ 64\<close> by (simp add: size_t_of_int_def)
qed

lemma is_offset_valid_iff:
  assumes "- (2 ^ 31) \<le> offset" "offset < 2 ^ 31"
  shows "is_offset_valid st offset \<longleftrightarrow> 0 \<le> offset \<and> offset < int (bandwidth st)"
proof (cases "0 \<le> offset")
  case True
  then obtain n where n: "offset = int n" using nonneg_int_cases by blast
  with assms(2) have "n < 2 ^ 64" by simp
  then show ?thesis using n by (simp add: is_offset_valid_def size_t_of_int_of_nat)
next
  case False
  then show ?thesis by (simp add: is_offset_valid_def)
qed

lemma cell_index_nat:
  assumes "band_idx < n_bands st" "n_bands st * bandwidth st < 2 ^ 64" "n < bandwidth st"
  shows "cell_index st band_idx (int n) = band_idx * bandwidth st + n"
    and "band_idx * bandwidth st + n < n_bands st * bandwidth st"
proof -
  have "band_idx * bandwidth st + n < Suc band_idx * bandwidth st"
    using assms(3) by simp
  also have "\<dots> \<le> n_bands st * bandwidth st"
    using assms(1) by (intro mult_le_mono1) simp
  finally show lt: "band_idx * bandwidth st + n < n_bands st * bandwidth st" .
  with assms(2) have lt64: "band_idx * bandwidth st + n < 2 ^ 64" by simp
  then have "band_idx * bandwidth st < 2 ^ 64" "n < 2 ^ 64" by simp_all
  then show "cell_index st band_idx (int n) = band_idx * bandwidth st + n"
    using lt64
    by (simp add: cell_index_def size_t_add_def size_t_mul_def size_t_of_int_of_nat)
qed

lemma mod_sub_wrap:
  fixes a b M :: nat
  assumes "b \<le> a" "a < M"
  shows "(a + M - b) mod M = a - b"
proof -
  have "a + M - b = (a - b) + M" using assms(1) by simp
  then have "(a + M - b) mod M = (a - b) mod M" by simp
  also have "\<dots> = a - b" using assms(2) by simp
  finally show ?thesis .
qed

lemma size_t_sub_le: "b \<le> a \<Longrightarrow> a < 2 ^ 64 \<Longrightarrow> size_t_sub a b = a - b"
  unfolding size_t_sub_def by (rule mod_sub_wrap)

lemma int_of_size_t_small: "n < 2 ^ 31 \<Longrightarrow> int_of_size_t n = int n"
  by (simp add: int_of_size_t_def)

text \<open>
  \<^verbatim>\<open>n - 1\<close> on a \<^verbatim>\<open>size_t\<close>, converted to \<^verbatim>\<open>int\<close>: for \<open>n = 0\<close> the difference wraps to
  \<open>2 ^ 64 - 1\<close>, whose low 32 bits are the \<^verbatim>\<open>int\<close> \<open>- 1\<close>.
\<close>

lemma int_of_size_t_sub_1: "n \<le> 2 ^ 31 \<Longrightarrow> int_of_size_t (size_t_sub n 1) = int n - 1"
proof (cases "n = 0")
  case True
  then show ?thesis by (simp add: size_t_sub_def int_of_size_t_def)
next
  case False
  assume le: "n \<le> 2 ^ 31"
  then have "n < 2 ^ 64" by simp
  with False have "size_t_sub n 1 = n - 1"
    by (intro size_t_sub_le) simp_all
  moreover have "n - 1 < 2 ^ 31" using False le by simp
  ultimately show ?thesis using False by (simp add: int_of_size_t_small)
qed

text \<open>The definitions a run on concrete numbers unfolds.\<close>

lemmas store_evals =
  size_t_add_def size_t_sub_def size_t_mul_def size_t_of_int_def int_of_size_t_def
  rd_def is_offset_valid_def cell_index_def get_def get_trace_def set_cell_def
  get_offset_for_event_in_band_def get_offset_for_kmer_in_band_def
  get_event_at_band_offset_def get_kmer_at_band_offset_def event_kmer_to_band_def
  set3_def set3_max_from_def flt_gt_def flt_eq_def
  SHMM_FROM_D_def SHMM_FROM_U_def SHMM_FROM_L_def

lemmas fpu_evals = ideal_fpu_def ideal_sub_def ideal_mul_def ideal_div_def

declare backtrack_walk.simps [simp del]

subsection \<open>The three-way maximum of \<open>set3\<close>\<close>

lemma set3_max_from_spec:
  assumes "d \<noteq> NaN" "u \<noteq> NaN" "l \<noteq> NaN"
    and "set3_max_from d u l = (m, t)"
  shows "m \<in> {d, u, l} \<and> \<not> flt_lt m d \<and> \<not> flt_lt m u \<and> \<not> flt_lt m l \<and>
         t = (if l = m then SHMM_FROM_L else if u = m then SHMM_FROM_U else SHMM_FROM_D)"
  using assms
  by (cases d; cases u; cases l)
     (auto simp: set3_max_from_def flt_gt_def flt_eq_def Let_def split: if_splits)

lemma set_cell_readback:
  assumes "set_cell st b off v t = Some st'" and "is_offset_valid st off"
  shows "get st' b off = Some v \<and> get_trace st' b off = Some t"
  using assms
  by (auto simp: set_cell_def get_def get_trace_def is_offset_valid_def cell_index_def rd_def Let_def
      split: if_splits)

lemma get_n_fills_update [simp]:
  "get (st\<lparr>n_fills := x\<rparr>) b off = get st b off"
  "get_trace (st\<lparr>n_fills := x\<rparr>) b off = get_trace st b off"
  by (simp_all add: get_def get_trace_def is_offset_valid_def cell_index_def)

text \<open>
  C1 (as amended). For candidates that are numbers or infinities, \<open>set3\<close> stores the
  maximum of the three, and the move it records is that of the \<^emph>\<open>last\<close> compared source
  that equals the maximum: left before up, up before diagonal. (The claim has the
  opposite order, diagonal before up before left.)
\<close>

theorem set3_stores_max_and_latest_source:
  assumes "score_d \<noteq> NaN" "score_u \<noteq> NaN" "score_l \<noteq> NaN"
    and "is_offset_valid st band_offset"
    and "set3 st band_idx band_offset score_d score_u score_l = Some st'"
  shows "\<exists>m. get st' band_idx band_offset = Some m \<and>
           m \<in> {score_d, score_u, score_l} \<and>
           \<not> flt_lt m score_d \<and> \<not> flt_lt m score_u \<and> \<not> flt_lt m score_l \<and>
           get_trace st' band_idx band_offset =
             Some (if score_l = m then SHMM_FROM_L
                   else if score_u = m then SHMM_FROM_U else SHMM_FROM_D)"
proof -
  obtain m t where mt: "set3_max_from score_d score_u score_l = (m, t)"
    by (cases "set3_max_from score_d score_u score_l")
  from assms(5) mt obtain st1 where
    st1: "set_cell st band_idx band_offset m t = Some st1"
    and st': "st' = st1\<lparr>n_fills := size_t_add (n_fills st1) 1\<rparr>"
    by (auto simp: set3_def split: bind_splits)
  from set_cell_readback [OF st1 assms(4)]
  have rb: "get st' band_idx band_offset = Some m" "get_trace st' band_idx band_offset = Some t"
    by (simp_all add: st')
  from set3_max_from_spec [OF assms(1-3) mt] rb show ?thesis by simp
qed

theorem set3_stores_max_and_latest_source_witness:
  "Num 0 \<noteq> NaN \<and> Num 1 \<noteq> NaN \<and> is_offset_valid example_result 1 \<and>
   (set3 example_result 5 1 (Num 0) (Num 1) (Num 1) \<bind> (\<lambda>st'. get st' 5 1)) = Some (Num 1) \<and>
   (set3 example_result 5 1 (Num 0) (Num 1) (Num 1) \<bind> (\<lambda>st'. get_trace st' 5 1))
     = Some SHMM_FROM_L"
proof -
  have v: "is_offset_valid example_result 1"
    by (simp add: example_result_def store_evals)
  obtain st' where s: "set3 example_result 5 1 (Num 0) (Num 1) (Num 1) = Some st'"
    by (simp add: example_result_def store_evals)
  have n: "Num 0 \<noteq> NaN" "Num 1 \<noteq> NaN" by simp_all
  from set3_stores_max_and_latest_source [OF n(1) n(2) n(2) v s]
  obtain m where m: "get st' 5 1 = Some m" "m \<in> {Num 0, Num 1, Num 1}" "\<not> flt_lt m (Num 1)"
    "get_trace st' 5 1 = Some (if Num 1 = m then SHMM_FROM_L
       else if Num 1 = m then SHMM_FROM_U else SHMM_FROM_D)"
    by blast
  from m(2,3) have "m = Num 1" by auto
  with m(1,4) s v show ?thesis by simp
qed

text \<open>
  Counterexample to C1 as stated: with three equal candidates the claim records the
  diagonal move; the code records the left move.
\<close>

theorem set3_tie_counterexample:
  "(set3 example_result 5 1 (Num 0) (Num 0) (Num 0) \<bind> (\<lambda>st'. get_trace st' 5 1))
     = Some SHMM_FROM_L \<and> SHMM_FROM_L \<noteq> SHMM_FROM_D"
  by (simp add: example_result_def store_evals)

subsection \<open>Band coordinates\<close>

text \<open>
  C2. For a band with an origin and a valid offset, the offset of the event at the
  offset and the offset of the k-mer at the offset are both the offset itself.
\<close>

theorem offset_round_trip:
  assumes "band_idx < length (band_origins st)" and "is_offset_valid st offset"
  shows "(get_event_at_band_offset st band_idx offset \<bind> get_offset_for_event_in_band st band_idx)
           = Some offset \<and>
         (get_kmer_at_band_offset st band_idx offset \<bind> get_offset_for_kmer_in_band st band_idx)
           = Some offset"
  using assms(1)
  by (simp add: get_event_at_band_offset_def get_offset_for_event_in_band_def
      get_kmer_at_band_offset_def get_offset_for_kmer_in_band_def rd_def)

theorem offset_round_trip_witness:
  "4 < length (band_origins example_result) \<and> is_offset_valid example_result 1 \<and>
   get_event_at_band_offset example_result 4 1 = Some 1 \<and>
   get_offset_for_event_in_band example_result 4 1 = Some 1 \<and>
   get_kmer_at_band_offset example_result 4 1 = Some 1 \<and>
   get_offset_for_kmer_in_band example_result 4 1 = Some 1"
proof -
  have b: "4 < length (band_origins example_result)"
    by (simp add: example_result_def)
  have v: "is_offset_valid example_result 1"
    by (simp add: example_result_def store_evals)
  have e: "get_event_at_band_offset example_result 4 1 = Some 1"
    "get_kmer_at_band_offset example_result 4 1 = Some 1"
    by (simp_all add: example_result_def store_evals)
  from offset_round_trip [OF b v] e b v show ?thesis by simp
qed

subsection \<open>Reading the store\<close>

text \<open>
  C3. In a store whose score buffer has \<open>n_bands * bandwidth\<close> cells, \<open>get\<close> on a band
  below \<open>n_bands\<close> and any \<^verbatim>\<open>int\<close> offset returns a value: minus infinity when the offset
  is negative or not below the bandwidth, the stored score otherwise.
\<close>

theorem get_never_faults:
  assumes "band_idx < n_bands st"
    and "length (band_scores st) = n_bands st * bandwidth st"
    and "n_bands st * bandwidth st < 2 ^ 64"
    and "- (2 ^ 31) \<le> offset" "offset < 2 ^ 31"
  shows "get st band_idx offset =
           Some (if offset < 0 \<or> offset \<ge> int (bandwidth st) then NegInf
                 else band_scores st ! (band_idx * bandwidth st + nat offset))"
proof (cases "0 \<le> offset \<and> offset < int (bandwidth st)")
  case True
  then obtain n where n: "offset = int n" "n < bandwidth st"
    using nonneg_int_cases by (metis of_nat_less_iff)
  have v: "is_offset_valid st offset"
    using True by (simp add: is_offset_valid_iff [OF assms(4,5)])
  from cell_index_nat [OF assms(1,3) n(2)] assms(2) v n True show ?thesis
    by (simp add: get_def rd_def)
next
  case False
  then have "\<not> is_offset_valid st offset"
    by (simp add: is_offset_valid_iff [OF assms(4,5)])
  with False show ?thesis by (auto simp: get_def)
qed

theorem get_never_faults_witness:
  "(2::nat) < n_bands example_result \<and>
   length (band_scores example_result) = n_bands example_result * bandwidth example_result \<and>
   get example_result 2 1 = Some (Num (ln (1 / 2))) \<and>
   get example_result 2 2 = Some NegInf \<and>
   get example_result 2 (- 1) = Some NegInf"
proof -
  have h: "2 < n_bands example_result"
    "length (band_scores example_result) = n_bands example_result * bandwidth example_result"
    "n_bands example_result * bandwidth example_result < 2 ^ 64"
    by (simp_all add: example_result_def)
  have "get example_result 2 1 = Some (Num (ln (1 / 2)))"
    using get_never_faults [OF h, of 1] by (simp add: example_result_def)
  moreover have "get example_result 2 2 = Some NegInf"
    using get_never_faults [OF h, of 2] by (simp add: example_result_def)
  moreover have "get example_result 2 (- 1) = Some NegInf"
    using get_never_faults [OF h, of "- 1"] by (simp add: example_result_def)
  ultimately show ?thesis using h by simp
qed


subsection \<open>Adaptive band placement\<close>

text \<open>
  C4. With \<open>ll\<close> and \<open>ur\<close> the scores at the first and the last offset of the previous
  band, \<open>determine_band_origin\<close> on a band \<open>i \<ge> 2\<close> sets the origin of band \<open>i\<close> to the
  previous origin moved right (\<open>kmer_idx + 1\<close>) or down (\<open>event_idx + 1\<close>): when both
  scores are minus infinity, right for odd \<open>i\<close> and down for even \<open>i\<close>; otherwise right
  if and only if \<open>ll < ur\<close>.
\<close>

theorem band_placement_rule:
  assumes "2 \<le> band_idx" "band_idx < 2 ^ 64" "band_idx < length (band_origins st)"
    and "bandwidth st \<le> 2 ^ 31"
    and "get st (band_idx - 1) 0 = Some ll"
    and "get st (band_idx - 1) (int (bandwidth st) - 1) = Some ur"
  shows "determine_band_origin st band_idx =
           Some (st\<lparr>band_origins := (band_origins st)[band_idx :=
             (let prev = band_origins st ! (band_idx - 1);
                  right = \<lparr>event_idx = event_idx prev, kmer_idx = kmer_idx prev + 1\<rparr>;
                  down = \<lparr>event_idx = event_idx prev + 1, kmer_idx = kmer_idx prev\<rparr>
              in if ll = NegInf \<and> ur = NegInf then (if odd band_idx then right else down)
                 else (if flt_lt ll ur then right else down))]\<rparr>)"
proof -
  have b: "size_t_sub band_idx 1 = band_idx - 1"
    using assms(1,2) by (intro size_t_sub_le) simp_all
  have w: "int_of_size_t (size_t_sub (bandwidth st) 1) = int (bandwidth st) - 1"
    using assms(4) by (rule int_of_size_t_sub_1)
  have p: "rd (band_origins st) (band_idx - 1) = Some (band_origins st ! (band_idx - 1))"
    using assms(3) by (simp add: rd_def)
  show ?thesis
    unfolding determine_band_origin_def b w
    using assms(3,5,6) p
    by (simp add: set_origin_def flt_eq_def Let_def
        move_band_right_def move_band_down_def odd_iff_mod_2_eq_one)
qed

theorem band_placement_rule_witness:
  "(2::nat) \<le> 3 \<and> 3 < length (band_origins example_result) \<and>
   get example_result (3 - 1) 0 = Some (Num (2 * ln (1 / 2))) \<and>
   get example_result (3 - 1) (int (bandwidth example_result) - 1) = Some (Num (ln (1 / 2))) \<and>
   flt_lt (Num (2 * ln (1 / 2))) (Num (ln (1 / 2))) \<and>
   determine_band_origin example_result 3 =
     Some (example_result\<lparr>band_origins :=
       (band_origins example_result)[3 := \<lparr>event_idx = 1, kmer_idx = 0\<rparr>]\<rparr>)"
proof -
  have h: "(2::nat) \<le> 3" "(3::nat) < 2 ^ 64" "3 < length (band_origins example_result)"
    "bandwidth example_result \<le> 2 ^ 31"
    by (simp_all add: example_result_def)
  have g: "get example_result (3 - 1) 0 = Some (Num (2 * ln (1 / 2)))"
    "get example_result (3 - 1) (int (bandwidth example_result) - 1) = Some (Num (ln (1 / 2)))"
    by (simp_all add: example_result_def store_evals)
  have lt: "flt_lt (Num (2 * ln (1 / 2))) (Num (ln (1 / 2)))" by simp
  from band_placement_rule [OF h g] lt h g show ?thesis
    by (simp add: example_result_def)
qed

subsection \<open>The left candidate of the recurrence\<close>

text \<open>
  C8. When the inner loop body computes its three candidates for a cell, the left
  candidate is the score of the left predecessor (previous band, k-mer index minus
  one) plus the skip penalty when the k-mer index is positive, and plus the sum of the
  step penalty and the cell's emission score when the k-mer index is \<open>0\<close>; the
  additions are those of \<^verbatim>\<open>double\<close>. The loop body hands the three candidates to
  \<open>set3\<close>.
\<close>

theorem left_candidate_score:
  assumes "candidate_scores fp pen emission kmer_ranks st band_idx offset
             = Some (score_d, score_u, score_l)"
  shows "\<exists>ev km kmer_rank left.
           get_event_at_band_offset st (size_t_of_int band_idx) offset = Some ev \<and>
           get_kmer_at_band_offset st (size_t_of_int band_idx) offset = Some km \<and>
           rd kmer_ranks (size_t_of_int km) = Some kmer_rank \<and>
           (get_offset_for_kmer_in_band st (size_t_of_int (band_idx - 1)) (km - 1)
              \<bind> get st (size_t_of_int (band_idx - 1))) = Some left \<and>
           (km > 0 \<longrightarrow> score_l = d_add fp left (lp_skip pen)) \<and>
           (km = 0 \<longrightarrow> score_l = d_add fp left (d_add fp (lp_step pen) (emission kmer_rank ev))) \<and>
           fill_cell fp pen emission kmer_ranks band_idx offset st =
             set3 st (size_t_of_int band_idx) offset score_d score_u (narrow fp score_l)"
  using assms
  by (auto simp: candidate_scores_def fill_cell_def Let_def split: bind_splits)

text \<open>
  The witness: band 3 of the small run, whose offset 0 is the cell of event 1 and
  k-mer 0 and whose offset 1 is the cell of event 0 and k-mer 1.
\<close>

theorem left_candidate_score_witness:
  "candidate_scores ideal_fpu example_penalties (\<lambda>r e. Num 0) [0, 1] example_result 3 0
     = Some (Num (2 * ln (1 / 2)), NegInf, Num (3 * ln (1 / 2))) \<and>
   get_kmer_at_band_offset example_result (size_t_of_int 3) 0 = Some 0 \<and>
   (get_offset_for_kmer_in_band example_result (size_t_of_int (3 - 1)) (0 - 1)
      \<bind> get example_result (size_t_of_int (3 - 1))) = Some (Num (2 * ln (1 / 2))) \<and>
   Num (3 * ln (1 / 2)) =
     d_add ideal_fpu (Num (2 * ln (1 / 2)))
       (d_add ideal_fpu (lp_step example_penalties) (Num 0))"
proof -
  have c: "candidate_scores ideal_fpu example_penalties (\<lambda>r e. Num 0) [0, 1] example_result 3 0
     = Some (Num (2 * ln (1 / 2)), NegInf, Num (3 * ln (1 / 2)))"
    by (simp add: candidate_scores_def example_result_def example_penalties_def
        store_evals fpu_evals)
  from left_candidate_score [OF c] obtain km left where
    k: "get_kmer_at_band_offset example_result (size_t_of_int 3) 0 = Some km"
    and l: "(get_offset_for_kmer_in_band example_result (size_t_of_int (3 - 1)) (km - 1)
              \<bind> get example_result (size_t_of_int (3 - 1))) = Some left"
    and s: "km = 0 \<longrightarrow> Num (3 * ln (1 / 2)) =
       d_add ideal_fpu left (d_add ideal_fpu (lp_step example_penalties) (Num 0))"
    by blast
  have km: "km = 0"
    using k by (simp add: example_result_def store_evals)
  have left: "left = Num (2 * ln (1 / 2))"
    using l unfolding km by (simp add: example_result_def store_evals)
  from c k l s show ?thesis unfolding km left by simp
qed

subsection \<open>The order of the alignment\<close>

lemma backtrack_walk_inv:
  assumes "backtrack_walk st k e is_skip out = Some res" and "walk_inv K k e is_skip out"
  shows "sorted_wrt (\<lambda>p q. snd q < snd p \<and> fst q \<le> fst p) res \<and>
         (\<forall>p \<in> set res. 0 \<le> fst p \<and> fst p \<le> K)"
  using assms
proof (induction st k e is_skip out rule: backtrack_walk.induct)
  case (1 st k e is_skip out)
  show ?case
  proof (cases "k \<ge> 0 \<and> e \<ge> 0")
    case False
    with "1.prems" show ?thesis
      by (subst (asm) backtrack_walk.simps) (auto simp: walk_inv_def)
  next
    case True
    define out' where "out' = (if \<not> is_skip then out @ [(k, e)] else out)"
    define band where "band = size_t_of_int (event_kmer_to_band e k)"
    from "1.prems"(1) True obtain off tr where
      off: "get_offset_for_event_in_band st band e = Some off"
        "get_offset_for_kmer_in_band st band k = Some off"
      and tr: "get_trace st band off = Some tr"
      and res: "(if tr = SHMM_FROM_D then backtrack_walk st (k - 1) (e - 1) False out'
                 else if tr = SHMM_FROM_U then backtrack_walk st k (e - 1) False out'
                 else backtrack_walk st (k - 1) e True out') = Some res"
      by (subst (asm) backtrack_walk.simps)
         (auto simp: Let_def out'_def band_def split: option.splits if_splits)
    have inv': "walk_inv K (k - 1) (e - 1) False out'" "walk_inv K k (e - 1) False out'"
      "walk_inv K (k - 1) e True out'"
      using "1.prems"(2) True
      by (auto simp: walk_inv_def out'_def sorted_wrt_append)
    show ?thesis
    proof (cases "tr = SHMM_FROM_D")
      case D: True
      with res have "backtrack_walk st (k - 1) (e - 1) False out' = Some res" by simp
      from "1.IH"(1) [OF True out'_def band_def off(1) off(2) _ tr D this inv'(1)]
      show ?thesis by simp
    next
      case nD: False
      show ?thesis
      proof (cases "tr = SHMM_FROM_U")
        case U: True
        with res nD have "backtrack_walk st k (e - 1) False out' = Some res" by simp
        from "1.IH"(2) [OF True out'_def band_def off(1) off(2) _ tr nD U this inv'(2)]
        show ?thesis by simp
      next
        case nU: False
        with res nD have "backtrack_walk st (k - 1) e True out' = Some res" by simp
        from "1.IH"(3) [OF True out'_def band_def off(1) off(2) _ tr nD nU this inv'(3)]
        show ?thesis by simp
      qed
    qed
  qed
qed

text \<open>
  C7. In every alignment that \<open>backtrack\<close> returns (pairs of k-mer index and event
  index), from each pair to the next the event index increases strictly and the k-mer
  index does not decrease; the k-mer index of the first pair is at least \<open>0\<close> and that
  of the last pair at most \<open>n_kmers - 1\<close>.
\<close>

theorem backtrack_output_ordered:
  assumes "backtrack fp st = Some out" and "n_kmers st \<le> 2 ^ 31"
  shows "(\<forall>i. Suc i < length out \<longrightarrow>
            snd (out ! i) < snd (out ! Suc i) \<and> fst (out ! i) \<le> fst (out ! Suc i)) \<and>
         (out \<noteq> [] \<longrightarrow> 0 \<le> fst (hd out) \<and> fst (last out) \<le> int (n_kmers st) - 1)"
proof -
  define K where "K = int (n_kmers st) - 1"
  have K: "int_of_size_t (size_t_sub (n_kmers st) 1) = K"
    unfolding K_def using assms(2) by (rule int_of_size_t_sub_1)
  from assms(1) obtain ce res where
    w: "backtrack_walk st K ce False [] = Some res" and out: "out = rev res"
    unfolding backtrack_def K by (auto split: bind_splits)
  have "walk_inv K K ce False []" by (simp add: walk_inv_def)
  from backtrack_walk_inv [OF w this]
  have s: "sorted_wrt (\<lambda>p q. snd q < snd p \<and> fst q \<le> fst p) res"
    and b: "\<forall>p \<in> set res. 0 \<le> fst p \<and> fst p \<le> K" by simp_all
  from s have so: "sorted_wrt (\<lambda>p q. snd p < snd q \<and> fst p \<le> fst q) out"
    unfolding out by (simp add: sorted_wrt_rev)
  have "snd (out ! i) < snd (out ! Suc i) \<and> fst (out ! i) \<le> fst (out ! Suc i)"
    if "Suc i < length out" for i
    using sorted_wrt_nth_less [OF so _ that, of i] by simp
  moreover have "0 \<le> fst (hd out) \<and> fst (last out) \<le> K" if "out \<noteq> []"
  proof -
    from that have "hd out \<in> set out" "last out \<in> set out" by simp_all
    with b show ?thesis unfolding out by simp
  qed
  ultimately show ?thesis unfolding K_def by blast
qed

theorem backtrack_output_ordered_witness:
  "backtrack ideal_fpu example_result = Some [(0, 0), (1, 1)] \<and>
   n_kmers example_result \<le> 2 ^ 31 \<and>
   snd ([(0, 0), (1, 1)] ! 0 :: AlignedPair) < snd ([(0, 0), (1, 1)] ! Suc 0 :: AlignedPair) \<and>
   fst (last [(0, 0), (1, 1 :: int)] :: AlignedPair) \<le> int (n_kmers example_result) - 1"
proof -
  have sc: "backtrack_scan ideal_fpu example_result = Some (Num (3 * ln (1 / 2)), 1)"
    by (simp add: backtrack_scan_def backtrack_scan_step_def example_result_def
        example_params_def store_evals fpu_evals upt_rec)
  have w: "backtrack_walk example_result 1 1 False [] = Some [(1, 1), (0, 0)]"
    by (simp add: backtrack_walk.simps example_result_def store_evals)
  have k: "int_of_size_t (size_t_sub (n_kmers example_result) 1) = 1"
    by (simp add: example_result_def size_t_sub_def int_of_size_t_def)
  have b: "backtrack ideal_fpu example_result = Some [(0, 0), (1, 1)]"
    unfolding backtrack_def sc k by (simp add: w)
  have n: "n_kmers example_result \<le> 2 ^ 31" by (simp add: example_result_def)
  from backtrack_output_ordered [OF b n] b n show ?thesis
    by (simp add: example_result_def)
qed


subsection \<open>Loops and what the fill preserves\<close>

lemma for_loop_invariant:
  assumes "for_loop xs body s = Some s'"
    and "P 0 s"
    and "\<And>n s s'. n < length xs \<Longrightarrow> P n s \<Longrightarrow> body (xs ! n) s = Some s' \<Longrightarrow> P (Suc n) s'"
  shows "P (length xs) s'"
  using assms
proof (induction xs arbitrary: s P)
  case Nil
  then show ?case by simp
next
  case (Cons x xs)
  from Cons.prems(1) obtain s1 where s1: "body x s = Some s1" "for_loop xs body s1 = Some s'"
    by (auto split: option.splits)
  have "P (Suc 0) s1" using Cons.prems(3) [of 0 s s1] Cons.prems(2) s1(1) by simp
  moreover have "\<And>n t t'. n < length xs \<Longrightarrow> P (Suc n) t \<Longrightarrow> body (xs ! n) t = Some t'
      \<Longrightarrow> P (Suc (Suc n)) t'"
    using Cons.prems(3) by force
  ultimately have "P (Suc (length xs)) s'"
    using Cons.IH [of s1 "\<lambda>n. P (Suc n)"] s1(2) by blast
  then show ?case by simp
qed

lemma for_loop_preserves:
  assumes "for_loop xs body s = Some s'"
    and "\<And>i t t'. body i t = Some t' \<Longrightarrow> f t' = f t"
  shows "f s' = f s"
  using for_loop_invariant [OF assms(1), of "\<lambda>n t. f t = f s"] assms(2) by simp

lemma for_loop_total_indexed:
  assumes "P 0 s"
    and "\<And>n s. n < length xs \<Longrightarrow> P n s \<Longrightarrow> \<exists>s'. body (xs ! n) s = Some s' \<and> P (Suc n) s'"
  shows "\<exists>s'. for_loop xs body s = Some s' \<and> P (length xs) s'"
  using assms
proof (induction xs arbitrary: s P)
  case Nil
  then show ?case by simp
next
  case (Cons x xs)
  from Cons.prems(2) [of 0 s] Cons.prems(1) obtain s1 where
    s1: "body x s = Some s1" "P (Suc 0) s1" by auto
  have "\<exists>s'. for_loop xs body s1 = Some s' \<and> P (Suc (length xs)) s'"
  proof (rule Cons.IH [of "\<lambda>n. P (Suc n)" s1])
    show "P (Suc 0) s1" by (rule s1(2))
  next
    fix n t assume "n < length xs" "P (Suc n) t"
    then show "\<exists>s'. body (xs ! n) t = Some s' \<and> P (Suc (Suc n)) s'"
      using Cons.prems(2) [of "Suc n" t] by simp
  qed
  with s1(1) show ?case by simp
qed

lemma precompute_kmer_ranks_result:
  assumes "n_km \<le> vector_max_size" "n_km \<le> in_sequence_size inp + 1"
  shows "precompute_kmer_ranks inp n_km = Some (map (in_kmer_rank inp) [0..<n_km])"
proof -
  let ?body = "\<lambda>i kmer_ranks.
     if i > in_sequence_size inp then None else Some (kmer_ranks[i := in_kmer_rank inp i])"
  let ?P = "\<lambda>n r. r = map (in_kmer_rank inp) [0..<n] @ replicate (n_km - n) (0::nat)"
  have "\<exists>r. for_loop [0..<n_km] ?body (replicate n_km 0) = Some r \<and> ?P (length [0..<n_km]) r"
  proof (rule for_loop_total_indexed [of ?P])
    show "?P 0 (replicate n_km 0)" by simp
  next
    fix n r assume n: "n < length [0..<n_km]" and P: "?P n r"
    from n have lt: "n < n_km" by simp
    then have rep: "replicate (n_km - n) (0::nat) = 0 # replicate (n_km - Suc n) 0"
      by (simp add: Suc_diff_Suc replicate_Suc [symmetric] del: replicate_Suc)
    have "r[n := in_kmer_rank inp n] =
            map (in_kmer_rank inp) [0..<Suc n] @ replicate (n_km - Suc n) 0"
      unfolding P rep by (simp add: list_update_append)
    moreover have "\<not> n > in_sequence_size inp" using lt assms(2) by simp
    ultimately show "\<exists>r'. ?body ([0..<n_km] ! n) r = Some r' \<and> ?P (Suc n) r'"
      using lt by simp
  qed
  then show ?thesis
    using assms(1) by (simp add: precompute_kmer_ranks_def)
qed

lemma for_loop_fault:
  assumes "x \<in> set xs" "\<And>s. body x s = None"
  shows "for_loop xs body s = None"
  using assms(1)
proof (induction xs arbitrary: s)
  case Nil
  then show ?case by simp
next
  case (Cons y ys)
  then show ?case using assms(2) by (cases "y = x") (auto split: option.splits)
qed

text \<open>
  A candidate string shorter than \<open>k - 1\<close>: the number of k-mers wraps around, and the
  driver ends with an exception where it builds the vector of k-mer ranks.
\<close>

lemma driver_throws_on_short_sequence:
  assumes "in_sequence_size inp + 1 < in_k inp" "in_k inp < 2 ^ 64"
  shows "generic_banded_simple_hmm fp inp ps hmm_result = None"
proof -
  define n_km where "n_km = size_t_add (size_t_sub (in_sequence_size inp) (in_k inp)) 1"
  have "in_sequence_size inp + 2 ^ 64 - in_k inp < 2 ^ 64 - 1"
    using assms by simp
  then have "size_t_sub (in_sequence_size inp) (in_k inp)
      = in_sequence_size inp + 2 ^ 64 - in_k inp"
    "size_t_sub (in_sequence_size inp) (in_k inp) + 1 < 2 ^ 64"
    by (simp_all add: size_t_sub_def)
  then have "n_km = in_sequence_size inp + 2 ^ 64 - in_k inp + 1"
    by (simp add: n_km_def size_t_add_def)
  with assms(2) have lt: "in_sequence_size inp + 1 < n_km" by simp
  have "precompute_kmer_ranks inp n_km = None"
  proof (cases "n_km > vector_max_size")
    case True
    then show ?thesis by (simp add: precompute_kmer_ranks_def)
  next
    case False
    have "for_loop [0..<n_km]
            (\<lambda>i kmer_ranks.
               if i > in_sequence_size inp then None
               else Some (kmer_ranks[i := in_kmer_rank inp i]))
            (replicate n_km 0) = None"
      by (rule for_loop_fault [of "in_sequence_size inp + 1"]) (use lt in simp_all)
    with False show ?thesis by (simp add: precompute_kmer_ranks_def)
  qed
  then show ?thesis
    unfolding generic_banded_simple_hmm_def Let_def n_km_def [symmetric] by simp
qed

lemma set_cell_keeps:
  assumes "set_cell st b off v t = Some st'"
  shows "shape st' = shape st" "band_origins st' = band_origins st"
  using assms by (auto simp: set_cell_def shape_def Let_def split: if_splits)

lemma set3_keeps:
  assumes "set3 st b off d u l = Some st'"
  shows "shape st' = shape st" "band_origins st' = band_origins st"
  using assms set_cell_keeps
  by (auto simp: set3_def shape_def split: bind_splits prod.splits)

lemma fill_cell_keeps:
  assumes "fill_cell fp pen em ranks b off st = Some st'"
  shows "shape st' = shape st" "band_origins st' = band_origins st"
  using assms set3_keeps
  by (auto simp: fill_cell_def split: bind_splits prod.splits)

lemma fill_trim_keeps:
  assumes "fill_trim fp pen n_ev b st = Some st'"
  shows "shape st' = shape st" "band_origins st' = band_origins st"
  using assms set_cell_keeps
  by (auto simp: fill_trim_def split: bind_splits if_splits)

lemma determine_band_origin_result:
  assumes "determine_band_origin st b = Some st'" "1 \<le> b" "b < 2 ^ 64"
  shows "b < length (band_origins st) \<and>
         (\<exists>origin. (origin = move_band_right (band_origins st ! (b - 1)) \<or>
                    origin = move_band_down (band_origins st ! (b - 1))) \<and>
            st' = st\<lparr>band_origins := (band_origins st)[b := origin]\<rparr>)"
proof -
  have b: "size_t_sub b 1 = b - 1"
    using assms(2,3) by (intro size_t_sub_le) simp_all
  from assms(1) show ?thesis
    unfolding determine_band_origin_def b
    by (auto simp: set_origin_def rd_def Let_def split: bind_splits if_splits)
qed

lemma origins_ok_step:
  assumes "origins_ok os j" "0 < j" "j < length os"
    and "origin = move_band_right (os ! (j - 1)) \<or> origin = move_band_down (os ! (j - 1))"
  shows "origins_ok (os[j := origin]) (Suc j)"
proof -
  from assms(2) obtain j' where j': "j = Suc j'" by (cases j) auto
  have sum: "event_idx (os ! j') + kmer_idx (os ! j') + 2 = int j'"
    using assms(1) j' by (simp add: origins_ok_def)
  have new: "event_idx origin + kmer_idx origin + 2 = int j"
    using assms(4) sum j' by (auto simp: move_band_right_def move_band_down_def)
  show ?thesis
    unfolding origins_ok_def
  proof (intro conjI allI impI)
    show "Suc j \<le> length (os[j := origin])" using assms(3) by simp
  next
    fix i assume "i < Suc j"
    then show "event_idx (os[j := origin] ! i) + kmer_idx (os[j := origin] ! i) + 2 = int i"
      using assms(1,3) new by (cases "i = j") (auto simp: origins_ok_def)
  next
    fix i assume i: "Suc i < Suc j"
    show "os[j := origin] ! Suc i = move_band_down (os[j := origin] ! i) \<or>
          os[j := origin] ! Suc i = move_band_right (os[j := origin] ! i)"
    proof (cases "Suc i = j")
      case True
      then show ?thesis using assms(3,4) j' by auto
    next
      case False
      with i have "Suc i < j" by simp
      then show ?thesis using assms(1) by (auto simp: origins_ok_def)
    qed
  qed
qed

lemma fill_band_step:
  assumes "fill_band fp pen em ranks n_ev (int b) st = Some st'"
    and "1 \<le> b" "b < 2 ^ 64" "origins_ok (band_origins st) b"
  shows "shape st' = shape st \<and> origins_ok (band_origins st') (Suc b)"
proof -
  have sb: "size_t_of_int (int b) = b" using assms(3) by (rule size_t_of_int_of_nat)
  from assms(1) obtain st1 st2 lo hi where
    d: "determine_band_origin st b = Some st1"
    and t: "fill_trim fp pen n_ev (int b) st1 = Some st2"
    and l: "for_loop [lo..hi - 1] (fill_cell fp pen em ranks (int b)) st2 = Some st'"
    unfolding fill_band_def sb by (auto split: bind_splits prod.splits)
  from determine_band_origin_result [OF d assms(2,3)] obtain origin where
    len: "b < length (band_origins st)"
    and o: "origin = move_band_right (band_origins st ! (b - 1)) \<or>
            origin = move_band_down (band_origins st ! (b - 1))"
    and st1: "st1 = st\<lparr>band_origins := (band_origins st)[b := origin]\<rparr>"
    by blast
  have ok1: "origins_ok (band_origins st1) (Suc b)"
    unfolding st1 using origins_ok_step [OF assms(4) _ len o] assms(2) by simp
  have sh1: "shape st1 = shape st" unfolding st1 by (simp add: shape_def)
  have k2: "shape st2 = shape st1" "band_origins st2 = band_origins st1"
    using fill_trim_keeps [OF t] by simp_all
  have k3: "shape st' = shape st2" "band_origins st' = band_origins st2"
    using for_loop_preserves [OF l, of shape] for_loop_preserves [OF l, of band_origins]
      fill_cell_keeps by blast+
  from ok1 sh1 k2 k3 show ?thesis by simp
qed


lemma size_t_add_plain: "a + b < 2 ^ 64 \<Longrightarrow> size_t_add a b = a + b"
  by (simp add: size_t_add_def)

lemma initialize_result:
  assumes "initialize st n_ev n_km ps = Some st0"
  shows "shape st0 =
           (n_km, n_ev, n_bands st0, p_bandwidth ps, ps,
            n_bands st0 * p_bandwidth ps, n_bands st0 * p_bandwidth ps, n_bands st0)"
    and "n_bands st0 = size_t_add (size_t_add n_ev 1) (size_t_add n_km 1)"
    and "2 \<le> n_bands st0"
    and "origins_ok (band_origins st0) 2"
proof -
  define nb where "nb = size_t_add (size_t_add n_ev 1) (size_t_add n_km 1)"
  define h where "h = int_of_size_t (p_bandwidth ps div 2)"
  define os where "os = resize (band_origins st) nb"
  have len: "length os = nb" by (simp add: os_def resize_def)
  from assms have nb2: "1 < nb"
    unfolding initialize_def Let_def nb_def [symmetric]
    by (auto simp: set_origin_def rd_def resize_def split: bind_splits if_splits)
  from assms nb2 len have st0: "st0 = st\<lparr>band_scores := replicate (nb * p_bandwidth ps) NegInf,
        trace := replicate (nb * p_bandwidth ps) 0,
        band_origins := os[0 := \<lparr>event_idx = h - 1, kmer_idx = - 1 - h\<rparr>,
                             1 := \<lparr>event_idx = h, kmer_idx = - 1 - h\<rparr>],
        parameters := ps, n_kmers := n_km, n_events := n_ev, n_bands := nb,
        bandwidth := p_bandwidth ps\<rparr>"
    unfolding initialize_def Let_def nb_def [symmetric] h_def [symmetric] os_def [symmetric]
    by (auto simp: set_origin_def rd_def move_band_down_def split: bind_splits if_splits)
  show "n_bands st0 = size_t_add (size_t_add n_ev 1) (size_t_add n_km 1)"
    by (simp add: st0 nb_def)
  show "2 \<le> n_bands st0" using nb2 by (simp add: st0)
  show "shape st0 =
           (n_km, n_ev, n_bands st0, p_bandwidth ps, ps,
            n_bands st0 * p_bandwidth ps, n_bands st0 * p_bandwidth ps, n_bands st0)"
    by (simp add: st0 shape_def len)
  show "origins_ok (band_origins st0) 2"
    using nb2 len
    by (auto simp: st0 origins_ok_def less_Suc_eq numeral_2_eq_2 move_band_down_def)
qed

lemma seed_bands_keeps:
  assumes "seed_bands fp pen st = Some st'"
  shows "shape st' = shape st" "band_origins st' = band_origins st"
proof -
  from assms obtain o1 st1 o2 where
    a: "set_cell st 0 o1 (Num 0) 0 = Some st1"
    and b: "set_cell st1 1 o2 (narrow fp (lp_trim pen)) SHMM_FROM_U = Some st'"
    unfolding seed_bands_def by (auto split: bind_splits if_splits)
  from set_cell_keeps [OF a] set_cell_keeps [OF b]
  show "shape st' = shape st" "band_origins st' = band_origins st" by simp_all
qed

lemma band_loop_invariant:
  assumes "for_loop [2..int nb - 1] (fill_band fp pen em ranks n_ev) st1 = Some st"
    and "2 \<le> nb" "nb < 2 ^ 64" "origins_ok (band_origins st1) 2"
  shows "shape st = shape st1 \<and> origins_ok (band_origins st) nb"
proof -
  let ?P = "\<lambda>n s. shape s = shape st1 \<and> origins_ok (band_origins s) (n + 2)"
  have len: "length [2..int nb - 1] = nb - 2" using assms(2) by simp
  have step: "?P (Suc n) s'"
    if "n < length [2..int nb - 1]" "?P n s"
      "fill_band fp pen em ranks n_ev ([2..int nb - 1] ! n) s = Some s'" for n s s'
  proof -
    from that(1) have n: "n + 2 < nb" using len by simp
    then have nth: "[2..int nb - 1] ! n = int (n + 2)"
      by (subst nth_upto) simp_all
    from that(3) have fb: "fill_band fp pen em ranks n_ev (int (n + 2)) s = Some s'"
      unfolding nth .
    from fill_band_step [OF fb] n assms(3) that(2) show ?thesis by simp
  qed
  have "?P (length [2..int nb - 1]) st"
  proof (rule for_loop_invariant [OF assms(1), of ?P])
    show "?P 0 st1" using assms(4) by (simp add: numeral_2_eq_2)
  qed (rule step)
  moreover have "length [2..int nb - 1] + 2 = nb" using assms(2) len by simp
  ultimately show ?thesis by simp
qed

lemma determine_band_origin_shape:
  assumes "determine_band_origin st b = Some st'"
  shows "shape st' = shape st"
  using assms
  by (auto simp: determine_band_origin_def set_origin_def shape_def Let_def
      split: bind_splits if_splits)

lemma fill_band_shape:
  assumes "fill_band fp pen em ranks n_ev b st = Some st'"
  shows "shape st' = shape st"
proof -
  from assms obtain st1 st2 lo hi where
    d: "determine_band_origin st (size_t_of_int b) = Some st1"
    and t: "fill_trim fp pen n_ev b st1 = Some st2"
    and l: "for_loop [lo..hi - 1] (fill_cell fp pen em ranks b) st2 = Some st'"
    unfolding fill_band_def by (auto split: bind_splits prod.splits)
  have "shape st' = shape st2"
    using for_loop_preserves [OF l, of shape] fill_cell_keeps(1) by blast
  with determine_band_origin_shape [OF d] fill_trim_keeps(1) [OF t] show ?thesis by simp
qed

lemma driver_shape:
  assumes "generic_banded_simple_hmm fp inp ps hmm_result = Some st"
  shows "shape st =
           (size_t_add (size_t_sub (in_sequence_size inp) (in_k inp)) 1, in_n_events inp,
            n_bands st, p_bandwidth ps, ps,
            n_bands st * p_bandwidth ps, n_bands st * p_bandwidth ps, n_bands st)"
    and "n_bands st =
           size_t_add (size_t_add (in_n_events inp) 1)
             (size_t_add (size_t_add (size_t_sub (in_sequence_size inp) (in_k inp)) 1) 1)"
    and "2 \<le> n_bands st"
    and "n_bands st < 2 ^ 31 \<Longrightarrow> origins_ok (band_origins st) (n_bands st)"
proof -
  define n_km where "n_km = size_t_add (size_t_sub (in_sequence_size inp) (in_k inp)) 1"
  define pen where "pen = transition_penalties fp (in_n_events inp) n_km ps"
  from assms(1) obtain ranks st0 st1 where
    i: "initialize hmm_result (in_n_events inp) n_km ps = Some st0"
    and s: "seed_bands fp pen st0 = Some st1"
    and l: "for_loop [2..get_num_bands st1 - 1]
              (fill_band fp pen (in_emission inp) ranks (in_n_events inp)) st1 = Some st"
    unfolding generic_banded_simple_hmm_def Let_def n_km_def [symmetric] pen_def [symmetric]
    by (auto split: bind_splits)
  note ir = initialize_result [OF i]
  note sk = seed_bands_keeps [OF s]
  have sh: "shape st = shape st1"
    using for_loop_preserves [OF l, of shape] fill_band_shape by blast
  then have nb: "n_bands st = n_bands st1" "n_bands st1 = n_bands st0"
    using sk(1) by (simp_all add: shape_def)
  show "shape st =
           (n_km, in_n_events inp, n_bands st, p_bandwidth ps, ps,
            n_bands st * p_bandwidth ps, n_bands st * p_bandwidth ps, n_bands st)"
    using sh sk(1) ir(1) nb by simp
  show "n_bands st = size_t_add (size_t_add (in_n_events inp) 1) (size_t_add n_km 1)"
    using ir(2) nb by simp
  show "2 \<le> n_bands st" using ir(3) nb by simp
  show "origins_ok (band_origins st) (n_bands st)" if small: "n_bands st < 2 ^ 31"
  proof -
    have gn: "get_num_bands st1 = int (n_bands st)"
      using small nb by (simp add: get_num_bands_def int_of_size_t_small)
    have "n_bands st < 2 ^ 64" using small by simp
    from band_loop_invariant [OF l [unfolded gn] _ this] ir(3,4) sk(2) nb
    show ?thesis by simp
  qed
qed


lemmas driver_evals =
  initialize_def resize_def set_origin_def move_band_down_def move_band_right_def
  get_num_bands_def seed_bands_def fill_band_def fill_trim_def fill_cell_def
  candidate_scores_def determine_band_origin_def get_offset_range_for_band_def

lemma option_bind_weak_cong: "m = m' \<Longrightarrow> Option.bind m f = Option.bind m' f"
  by simp

lemma example_transition_penalties:
  "transition_penalties ideal_fpu 2 2 example_params = example_penalties"
  by (simp add: transition_penalties_def example_params_def fpu_evals Let_def
      example_penalties_def)

lemma no_kmers_transition_penalties:
  "transition_penalties ideal_fpu 1 0 example_params =
     \<lparr>lp_skip = Num (ln (1 / 2)), lp_stay = Num 0, lp_step = NaN, lp_trim = Num (ln (1 / 2))\<rparr>"
  by (simp add: transition_penalties_def example_params_def fpu_evals Let_def)

lemma no_events_transition_penalties:
  "transition_penalties ideal_fpu 0 1 example_params =
     \<lparr>lp_skip = Num (ln (1 / 2)), lp_stay = NaN, lp_step = NaN, lp_trim = Num (ln (1 / 2))\<rparr>"
  by (simp add: transition_penalties_def example_params_def fpu_evals Let_def)

lemma replicate_12: "replicate 12 x = [x, x, x, x, x, x, x, x, x, x, x, x]"
  by (simp add: numeral_eq_Suc)

lemma replicate_6: "replicate 6 x = [x, x, x, x, x, x]"
  by (simp add: numeral_eq_Suc)

lemma replicate_3: "replicate 3 x = [x, x, x]"
  by (simp add: numeral_eq_Suc)

text \<open>The small run, evaluated.\<close>

lemma example_run:
  "generic_banded_simple_hmm ideal_fpu example_input example_params fresh_result
     = Some example_result"
proof -
  have nk: "size_t_add (size_t_sub (in_sequence_size example_input) (in_k example_input)) 1 = 2"
    by (simp add: example_input_def size_t_add_def size_t_sub_def)
  have ne: "in_n_events example_input = 2"
    by (simp add: example_input_def)
  have kr: "precompute_kmer_ranks example_input 2 = Some (map (in_kmer_rank example_input) [0..<2])"
    by (rule precompute_kmer_ranks_result) (simp_all add: example_input_def vector_max_size_def)
  show ?thesis
    unfolding generic_banded_simple_hmm_def Let_def nk ne kr example_transition_penalties
    by (simp add: example_input_def example_params_def fresh_result_def example_penalties_def
        driver_evals store_evals fpu_evals replicate_12 replicate_6 example_result_def
        upto_rec1 upt_conv_Cons
        cong: option_bind_weak_cong split del: if_split)
qed

subsection \<open>The sequence of band origins\<close>

text \<open>
  C5. After the driver has run (with a number of bands that an \<^verbatim>\<open>int\<close> holds), every
  band has its origin; from each origin to the next exactly one of \<open>event_idx\<close> and
  \<open>kmer_idx\<close> grows, by exactly one; and for every band \<open>i\<close> the coordinates of the
  origin satisfy \<open>event_idx + kmer_idx + 2 = i\<close>, as do the event and the k-mer of the
  cell at every offset of the band.
\<close>

theorem band_origins_step_and_sum:
  assumes "generic_banded_simple_hmm fp inp ps hmm_result = Some st"
    and "n_bands st < 2 ^ 31"
  shows "length (band_origins st) = n_bands st \<and>
         (\<forall>i. Suc i < n_bands st \<longrightarrow>
            (event_idx (band_origins st ! Suc i) = event_idx (band_origins st ! i) + 1 \<and>
             kmer_idx (band_origins st ! Suc i) = kmer_idx (band_origins st ! i)) \<or>
            (event_idx (band_origins st ! Suc i) = event_idx (band_origins st ! i) \<and>
             kmer_idx (band_origins st ! Suc i) = kmer_idx (band_origins st ! i) + 1)) \<and>
         (\<forall>i < n_bands st.
            event_idx (band_origins st ! i) + kmer_idx (band_origins st ! i) + 2 = int i \<and>
            (\<forall>offset. \<exists>ev km.
               get_event_at_band_offset st i offset = Some ev \<and>
               get_kmer_at_band_offset st i offset = Some km \<and>
               event_kmer_to_band ev km = int i))"
proof -
  note d = driver_shape(4) [OF assms]
  have len: "length (band_origins st) = n_bands st"
    using driver_shape(1) [OF assms(1)] by (simp add: shape_def)
  have steps: "(event_idx (band_origins st ! Suc i) = event_idx (band_origins st ! i) + 1 \<and>
             kmer_idx (band_origins st ! Suc i) = kmer_idx (band_origins st ! i)) \<or>
            (event_idx (band_origins st ! Suc i) = event_idx (band_origins st ! i) \<and>
             kmer_idx (band_origins st ! Suc i) = kmer_idx (band_origins st ! i) + 1)"
    if "Suc i < n_bands st" for i
    using d that by (auto simp: origins_ok_def move_band_down_def move_band_right_def)
  have sum: "event_idx (band_origins st ! i) + kmer_idx (band_origins st ! i) + 2 = int i"
    if "i < n_bands st" for i
    using d that by (simp add: origins_ok_def)
  have cells: "\<exists>ev km. get_event_at_band_offset st i offset = Some ev \<and>
               get_kmer_at_band_offset st i offset = Some km \<and>
               event_kmer_to_band ev km = int i"
    if "i < n_bands st" for i offset
    using sum [OF that] that len
    by (simp add: get_event_at_band_offset_def get_kmer_at_band_offset_def rd_def
        event_kmer_to_band_def)
  from len steps sum cells show ?thesis by blast
qed



theorem band_origins_step_and_sum_witness:
  "generic_banded_simple_hmm ideal_fpu example_input example_params fresh_result
     = Some example_result \<and>
   n_bands example_result < 2 ^ 31 \<and>
   length (band_origins example_result) = 6 \<and>
   map (\<lambda>origin. event_idx origin + kmer_idx origin + 2) (band_origins example_result)
     = [0, 1, 2, 3, 4, 5] \<and>
   event_idx (band_origins example_result ! Suc 3) = event_idx (band_origins example_result ! 3) + 1 \<and>
   kmer_idx (band_origins example_result ! Suc 2) = kmer_idx (band_origins example_result ! 2) + 1"
proof -
  have small: "n_bands example_result < 2 ^ 31" by (simp add: example_result_def)
  from band_origins_step_and_sum [OF example_run small] example_run small
  show ?thesis by (simp add: example_result_def)
qed

subsection \<open>Inputs without k-mers or without events\<close>

lemma get_total:
  assumes "b < n_bands st" "length (band_scores st) = n_bands st * bandwidth st"
    "n_bands st * bandwidth st < 2 ^ 64"
  shows "\<exists>v. get st b off = Some v"
proof (cases "is_offset_valid st off")
  case False
  then show ?thesis by (simp add: get_def)
next
  case True
  define m where "m = size_t_of_int off"
  from True have m: "m < bandwidth st" by (simp add: is_offset_valid_def m_def)
  have "b * bandwidth st + m < Suc b * bandwidth st" using m by simp
  also have "\<dots> \<le> n_bands st * bandwidth st"
    using assms(1) by (intro mult_le_mono1) simp
  finally have lt: "b * bandwidth st + m < n_bands st * bandwidth st" .
  with assms(3) have "b * bandwidth st + m < 2 ^ 64" by simp
  then have "cell_index st b off = b * bandwidth st + m"
    by (simp add: cell_index_def m_def [symmetric] size_t_add_def size_t_mul_def)
  with lt assms(2) True show ?thesis by (simp add: get_def rd_def)
qed

lemma for_loop_total:
  assumes "\<And>x s. x \<in> set xs \<Longrightarrow> \<exists>s'. body x s = Some s'"
  shows "\<exists>s'. for_loop xs body s = Some s'"
  using assms
proof (induction xs arbitrary: s)
  case Nil
  then show ?case by simp
next
  case (Cons x xs)
  from Cons.prems [of x s] obtain s1 where "body x s = Some s1" by auto
  moreover from Cons.IH [of s1] Cons.prems obtain s' where "for_loop xs body s1 = Some s'"
    by auto
  ultimately show ?case by simp
qed

lemma backtrack_scan_total_without_kmers:
  assumes "n_kmers st = 0" "n_bands st = n_events st + 2" "length (band_origins st) = n_bands st"
    and "length (band_scores st) = n_bands st * bandwidth st"
    and "n_bands st * bandwidth st < 2 ^ 64" "n_bands st < 2 ^ 64"
  shows "\<exists>r. backtrack_scan fp st = Some r"
proof -
  have k: "int_of_size_t (size_t_sub (n_kmers st) 1) = - 1"
    using assms(1) by (simp add: size_t_sub_def int_of_size_t_def)
  note nb64 = assms(6)
  have step: "\<exists>r. backtrack_scan_step fp st lp (- 1) x acc = Some r"
    if "x \<in> set (map int [0..<n_events st])" for x acc lp
  proof -
    from that obtain e where e: "x = int e" "e < n_events st" by auto
    have lt: "Suc e < n_bands st" using e(2) assms(2) by simp
    have b: "size_t_of_int (event_kmer_to_band (int e) (- 1)) = Suc e"
    proof -
      have "Suc e < 2 ^ 64" using lt nb64 by simp
      from size_t_of_int_of_nat [OF this] show ?thesis
        by (simp add: event_kmer_to_band_def add.commute)
    qed
    obtain acc1 acc2 where acc: "acc = (acc1, acc2)" by (cases acc)
    define off where "off = event_idx (band_origins st ! Suc e) - int e"
    have o: "get_offset_for_event_in_band st (Suc e) (int e) = Some off"
      using lt assms(3) by (simp add: get_offset_for_event_in_band_def rd_def off_def)
    from get_total [OF lt assms(4,5)] obtain v where v: "get st (Suc e) off = Some v"
      by blast
    show ?thesis
      unfolding e(1) backtrack_scan_step_def b acc
      by (cases "is_offset_valid st off") (simp_all add: o v Let_def)
  qed
  show ?thesis
    unfolding backtrack_scan_def Let_def k
    by (rule for_loop_total) (rule step)
qed



subsection \<open>The driver returns\<close>


lemma store_ok_shape: "shape st' = shape st \<Longrightarrow> store_ok st' = store_ok st"
  by (simp add: shape_def store_ok_def)

lemma get_total':
  assumes "store_ok st" "b < n_bands st"
  shows "\<exists>v. get st b off = Some v"
  using get_total [of b st off] assms by (simp add: store_ok_def)

lemma set_cell_total:
  assumes "store_ok st" "b < n_bands st" "is_offset_valid st off"
  shows "\<exists>st'. set_cell st b off v t = Some st'"
proof -
  define m where "m = size_t_of_int off"
  from assms(3) have m: "m < bandwidth st" by (simp add: is_offset_valid_def m_def)
  have "b * bandwidth st + m < Suc b * bandwidth st" using m by simp
  also have "\<dots> \<le> n_bands st * bandwidth st"
    using assms(2) by (intro mult_le_mono1) simp
  finally have lt: "b * bandwidth st + m < n_bands st * bandwidth st" .
  with assms(1) have "b * bandwidth st + m < 2 ^ 64" by (simp add: store_ok_def)
  then have "cell_index st b off = b * bandwidth st + m"
    by (simp add: cell_index_def m_def [symmetric] size_t_add_def size_t_mul_def)
  with lt assms(1) show ?thesis by (simp add: set_cell_def store_ok_def Let_def)
qed

lemma origin_reads:
  assumes "b < length (band_origins st)"
  shows "get_offset_for_event_in_band st b x = Some (event_idx (band_origins st ! b) - x)"
    and "get_offset_for_kmer_in_band st b x = Some (x - kmer_idx (band_origins st ! b))"
    and "get_event_at_band_offset st b x = Some (event_idx (band_origins st ! b) - x)"
    and "get_kmer_at_band_offset st b x = Some (kmer_idx (band_origins st ! b) + x)"
  using assms
  by (simp_all add: get_offset_for_event_in_band_def get_offset_for_kmer_in_band_def
      get_event_at_band_offset_def get_kmer_at_band_offset_def rd_def)

lemma determine_band_origin_total:
  assumes "store_ok st" "1 \<le> b" "b < n_bands st"
  shows "\<exists>st'. determine_band_origin st b = Some st'"
proof -
  have b64: "b < 2 ^ 64" using assms(1,3) by (simp add: store_ok_def)
  have sb: "size_t_sub b 1 = b - 1"
    using assms(2) b64 by (intro size_t_sub_le) simp_all
  have lt: "b - 1 < n_bands st" using assms(3) by simp
  from get_total' [OF assms(1) lt] obtain ll where ll: "get st (b - 1) 0 = Some ll" by blast
  from get_total' [OF assms(1) lt] obtain ur where
    ur: "get st (b - 1) (int_of_size_t (size_t_sub (bandwidth st) 1)) = Some ur" by blast
  have len: "b < length (band_origins st)" "b - 1 < length (band_origins st)"
    using assms(1,3) by (simp_all add: store_ok_def)
  show ?thesis
    unfolding determine_band_origin_def sb ll ur
    using len by (simp add: rd_def set_origin_def Let_def)
qed

lemma fill_trim_total:
  assumes "store_ok st" "b < n_bands st"
  shows "\<exists>st'. fill_trim fp pen n_ev (int b) st = Some st'"
proof -
  have b64: "b < 2 ^ 64" using assms(1,2) by (simp add: store_ok_def)
  have sb: "size_t_of_int (int b) = b" using b64 by (rule size_t_of_int_of_nat)
  have len: "b < length (band_origins st)" using assms by (simp add: store_ok_def)
  note o = origin_reads [OF len]
  show ?thesis
    unfolding fill_trim_def sb o
    using set_cell_total [OF assms] by (auto simp: bind_eq_Some_conv)
qed


lemma size_t_of_int_minus:
  assumes "k \<le> b" "b < 2 ^ 64"
  shows "size_t_of_int (int b - int k) = b - k"
proof -
  have "int b - int k = int (b - k)" using assms(1) by simp
  moreover have "b - k < 2 ^ 64" using assms(2) by simp
  ultimately show ?thesis by (simp only: size_t_of_int_of_nat)
qed

lemma fill_cell_total:
  assumes ok: "store_ok st" and b: "2 \<le> b" "b < n_bands st"
    and off: "0 \<le> off" "off < int (bandwidth st)"
    and km: "0 \<le> kmer_idx (band_origins st ! b) + off"
      "kmer_idx (band_origins st ! b) + off < int (length ranks)" "length ranks < 2 ^ 64"
  shows "\<exists>st'. fill_cell fp pen em ranks (int b) off st = Some st'"
proof -
  have b64: "b < 2 ^ 64" using ok b by (simp add: store_ok_def)
  have sb: "size_t_of_int (int b) = b" using b64 by (rule size_t_of_int_of_nat)
  have sb1: "size_t_of_int (int b - 1) = b - 1"
    using size_t_of_int_minus [of 1 b] b b64 by simp
  have sb2: "size_t_of_int (int b - 2) = b - 2"
    using size_t_of_int_minus [of 2 b] b b64 by simp
  have len: "b < length (band_origins st)" "b - 1 < length (band_origins st)"
    "b - 2 < length (band_origins st)"
    using ok b by (simp_all add: store_ok_def)
  have lt: "b - 1 < n_bands st" "b - 2 < n_bands st" using b by simp_all
  define km where "km = kmer_idx (band_origins st ! b) + off"
  from km(1) obtain n where n: "km = int n" unfolding km_def using nonneg_int_cases by blast
  with km(2,3) have n': "n < length ranks" "n < 2 ^ 64" unfolding km_def [symmetric] by simp_all
  have rk: "rd ranks (size_t_of_int km) = Some (ranks ! n)"
    unfolding n using n' by (simp add: size_t_of_int_of_nat rd_def)
  have valid: "is_offset_valid st off"
    using off ok by (simp add: is_offset_valid_iff store_ok_def)
  define ev where "ev = event_idx (band_origins st ! b) - off"
  define o_up where "o_up = event_idx (band_origins st ! (b - 1)) - (ev - 1)"
  define o_left where "o_left = km - 1 - kmer_idx (band_origins st ! (b - 1))"
  define o_diag where "o_diag = km - 1 - kmer_idx (band_origins st ! (b - 2))"
  from get_total' [OF ok lt(1)] obtain up where up: "get st (b - 1) o_up = Some up" by blast
  from get_total' [OF ok lt(1)] obtain left where left: "get st (b - 1) o_left = Some left"
    by blast
  from get_total' [OF ok lt(2)] obtain diag where diag: "get st (b - 2) o_diag = Some diag"
    by blast
  have "\<exists>r. candidate_scores fp pen em ranks st (int b) off = Some r"
    unfolding candidate_scores_def sb sb1 sb2 origin_reads [OF len(1)]
      origin_reads [OF len(2)] origin_reads [OF len(3)] km_def [symmetric] ev_def [symmetric]
      Option.bind.simps rk o_up_def [symmetric] o_left_def [symmetric] o_diag_def [symmetric]
      up left diag Let_def
    by simp
  then obtain d u l where c: "candidate_scores fp pen em ranks st (int b) off = Some (d, u, l)"
    by (metis prod_cases3)
  from set_cell_total [OF ok b(2) valid] show ?thesis
    unfolding fill_cell_def c sb
    by (auto simp: set3_def bind_eq_Some_conv split: prod.splits)
qed

lemma fill_band_total:
  assumes ok: "store_ok st" and b: "2 \<le> b" "b < n_bands st"
    and nk: "n_kmers st = length ranks" "length ranks < 2 ^ 31"
  shows "\<exists>st'. fill_band fp pen em ranks n_ev (int b) st = Some st'"
proof -
  have b64: "b < 2 ^ 64" using ok b by (simp add: store_ok_def)
  have sb: "size_t_of_int (int b) = b" using b64 by (rule size_t_of_int_of_nat)
  from determine_band_origin_total [OF ok _ b(2)] b(1) obtain st1 where
    d: "determine_band_origin st b = Some st1" by auto
  have sh1: "shape st1 = shape st" by (rule determine_band_origin_shape [OF d])
  have ok1: "store_ok st1" using store_ok_shape [OF sh1] ok by simp
  have nb1: "n_bands st1 = n_bands st" using sh1 by (simp add: shape_def)
  from fill_trim_total [OF ok1, of b fp pen n_ev] b(2) nb1 obtain st2 where
    t: "fill_trim fp pen n_ev (int b) st1 = Some st2" by auto
  note k2 = fill_trim_keeps [OF t]
  have sh2: "shape st2 = shape st" using k2(1) sh1 by simp
  have ok2: "store_ok st2" using store_ok_shape [OF sh2] ok by simp
  have nb2: "n_bands st2 = n_bands st" and nk2: "n_kmers st2 = length ranks"
    using sh2 nk(1) by (simp_all add: shape_def)
  have bw2: "bandwidth st2 < 2 ^ 31" using ok2 by (simp add: store_ok_def)
  have len2: "b < length (band_origins st2)" using ok2 nb2 b(2) by (simp add: store_ok_def)
  define lo where "lo = max (max (0 - kmer_idx (band_origins st2 ! b))
      (event_idx (band_origins st2 ! b) - int_of_size_t (size_t_sub (n_events st2) 1))) 0"
  define hi where "hi = min (min (int_of_size_t (n_kmers st2) - kmer_idx (band_origins st2 ! b))
      (event_idx (band_origins st2 ! b) - (- 1))) (int_of_size_t (bandwidth st2))"
  have r: "get_offset_range_for_band st2 b = Some (lo, hi)"
    unfolding get_offset_range_for_band_def origin_reads [OF len2]
    by (simp add: lo_def hi_def Let_def)
  have hi1: "hi \<le> int (length ranks) - kmer_idx (band_origins st2 ! b)"
    unfolding hi_def nk2 using nk(2) by (simp add: int_of_size_t_small)
  have hi2: "hi \<le> int (bandwidth st2)"
    unfolding hi_def using bw2 by (simp add: int_of_size_t_small)
  have lo1: "0 \<le> lo" "0 - kmer_idx (band_origins st2 ! b) \<le> lo"
    unfolding lo_def by simp_all
  let ?I = "\<lambda>(n::nat) s. shape s = shape st2 \<and> band_origins s = band_origins st2"
  have "\<exists>st'. for_loop [lo..hi - 1] (fill_cell fp pen em ranks (int b)) st2 = Some st'
          \<and> ?I (length [lo..hi - 1]) st'"
  proof (rule for_loop_total_indexed [of ?I])
    show "?I 0 st2" by simp
  next
    fix n s assume n: "n < length [lo..hi - 1]" and I: "?I n s"
    define off where "off = [lo..hi - 1] ! n"
    have "off \<in> set [lo..hi - 1]" unfolding off_def using n by simp
    then have o: "lo \<le> off" "off < hi" by simp_all
    from I have shs: "shape s = shape st2" and os: "band_origins s = band_origins st2"
      by simp_all
    have oks: "store_ok s" using store_ok_shape [OF shs] ok2 by simp
    have nbs: "n_bands s = n_bands st" and bws: "bandwidth s = bandwidth st2"
      using shs nb2 by (simp_all add: shape_def)
    have "\<exists>st'. fill_cell fp pen em ranks (int b) off s = Some st'"
    proof (rule fill_cell_total [OF oks b(1)])
      show "b < n_bands s" using nbs b(2) by simp
      show "0 \<le> off" using o(1) lo1(1) by simp
      show "off < int (bandwidth s)" using o(2) hi2 bws by simp
      show "0 \<le> kmer_idx (band_origins s ! b) + off" using o(1) lo1(2) os by simp
      show "kmer_idx (band_origins s ! b) + off < int (length ranks)"
        using o(2) hi1 os by simp
      show "length ranks < 2 ^ 64" using nk(2) by simp
    qed
    then obtain st' where f: "fill_cell fp pen em ranks (int b) off s = Some st'" by blast
    from fill_cell_keeps [OF f] I have "?I (Suc n) st'" by simp
    with f show "\<exists>s'. fill_cell fp pen em ranks (int b) ([lo..hi - 1] ! n) s = Some s'
        \<and> ?I (Suc n) s'"
      unfolding off_def by blast
  qed
  then obtain st' where
    l: "for_loop [lo..hi - 1] (fill_cell fp pen em ranks (int b)) st2 = Some st'" by blast
  show ?thesis
    unfolding fill_band_def sb d by (simp add: t r l)
qed


lemma initialize_total:
  assumes "n_ev + n_km + 2 < 2 ^ 64"
  shows "\<exists>st0. initialize st n_ev n_km ps = Some st0"
proof -
  have "size_t_add (size_t_add n_ev 1) (size_t_add n_km 1) = n_ev + n_km + 2"
    using assms by (simp add: size_t_add_def)
  then show ?thesis
    unfolding initialize_def Let_def
    by (simp add: set_origin_def rd_def resize_def)
qed

lemma initialize_origins:
  assumes "initialize st n_ev n_km ps = Some st0"
  shows "band_origins st0 ! 0 =
           \<lparr>event_idx = int_of_size_t (p_bandwidth ps div 2) - 1,
            kmer_idx = - 1 - int_of_size_t (p_bandwidth ps div 2)\<rparr>"
    and "band_origins st0 ! 1 =
           \<lparr>event_idx = int_of_size_t (p_bandwidth ps div 2),
            kmer_idx = - 1 - int_of_size_t (p_bandwidth ps div 2)\<rparr>"
  using assms
  unfolding initialize_def Let_def
  by (auto simp: set_origin_def rd_def resize_def move_band_down_def
      split: bind_splits if_splits)

lemma seed_bands_total:
  assumes ok: "store_ok st" and nb: "2 \<le> n_bands st" and bw: "1 \<le> bandwidth st"
    and o0: "band_origins st ! 0 = \<lparr>event_idx = h - 1, kmer_idx = - 1 - h\<rparr>"
    and o1: "band_origins st ! 1 = \<lparr>event_idx = h, kmer_idx = - 1 - h\<rparr>"
    and h: "h = int (bandwidth st div 2)"
  shows "\<exists>st'. seed_bands fp pen st = Some st'"
proof -
  have len: "0 < length (band_origins st)" "1 < length (band_origins st)"
    using ok nb by (simp_all add: store_ok_def)
  have valid: "is_offset_valid st h"
  proof -
    have "bandwidth st div 2 < bandwidth st" using bw by simp
    moreover have "bandwidth st div 2 < 2 ^ 64"
    proof -
      have "bandwidth st div 2 \<le> bandwidth st" by (rule div_le_dividend)
      also have "\<dots> < 2 ^ 31" using ok by (simp add: store_ok_def)
      also have "(2::nat) ^ 31 < 2 ^ 64" by simp
      finally show ?thesis .
    qed
    ultimately show ?thesis
      unfolding h by (simp add: is_offset_valid_def size_t_of_int_of_nat)
  qed
  from set_cell_total [OF ok _ valid, of 0 "Num 0" 0] nb obtain st1 where
    s1: "set_cell st 0 h (Num 0) 0 = Some st1" by auto
  note k1 = set_cell_keeps [OF s1]
  have ok1: "store_ok st1" using store_ok_shape [OF k1(1)] ok by simp
  have nb1: "n_bands st1 = n_bands st" and bw1: "bandwidth st1 = bandwidth st"
    using k1(1) by (simp_all add: shape_def)
  have valid1: "is_offset_valid st1 h"
    using valid bw1 by (simp add: is_offset_valid_def)
  from set_cell_total [OF ok1 _ valid1, of "Suc 0" "narrow fp (lp_trim pen)" SHMM_FROM_U]
    nb nb1
  obtain st2 where
    s2: "set_cell st1 (Suc 0) h (narrow fp (lp_trim pen)) SHMM_FROM_U = Some st2"
    by auto
  have len1: "1 < length (band_origins st1)" using len k1(2) by simp
  have r0: "get_offset_for_kmer_in_band st 0 (- 1) = Some h"
    "get_offset_for_event_in_band st 0 (- 1) = Some h"
    unfolding origin_reads [OF len(1)] o0 by simp_all
  have r1: "get_offset_for_event_in_band st1 (Suc 0) 0 = Some h"
    "get_kmer_at_band_offset st1 (Suc 0) h = Some (- 1)"
    using origin_reads [OF len1] o1 unfolding k1(2) by simp_all
  show ?thesis
    unfolding seed_bands_def r0
    using valid valid1 by (simp add: s1 s2 r1)
qed

lemma driver_returns:
  assumes "1 \<le> p_bandwidth ps" "p_bandwidth ps < 2 ^ 31"
    and "in_k inp \<le> in_sequence_size inp + 1" "in_sequence_size inp < 2 ^ 31"
    and "in_n_events inp + in_sequence_size inp + 3 < 2 ^ 31 + in_k inp"
  shows "\<exists>st. generic_banded_simple_hmm fp inp ps hmm_result = Some st"
proof -
  define n_km where "n_km = size_t_add (size_t_sub (in_sequence_size inp) (in_k inp)) 1"
  define n_ev where "n_ev = in_n_events inp"
  define pen where "pen = transition_penalties fp n_ev n_km ps"
  define ranks where "ranks = map (in_kmer_rank inp) [0..<n_km]"
  have nkm: "n_km = in_sequence_size inp + 1 - in_k inp"
  proof (cases "in_k inp \<le> in_sequence_size inp")
    case True
    with assms(4) have "size_t_sub (in_sequence_size inp) (in_k inp)
        = in_sequence_size inp - in_k inp"
      by (intro size_t_sub_le) simp_all
    with True assms(4) show ?thesis by (simp add: n_km_def size_t_add_def)
  next
    case False
    with assms(3) have e: "in_k inp = in_sequence_size inp + 1" by simp
    have "in_sequence_size inp + 2 ^ 64 - in_k inp = 2 ^ 64 - 1" unfolding e by simp
    then have "size_t_sub (in_sequence_size inp) (in_k inp) = 2 ^ 64 - 1"
      by (simp add: size_t_sub_def)
    then show ?thesis unfolding n_km_def e by (simp add: size_t_add_def)
  qed
  have small: "n_ev + n_km + 2 < 2 ^ 31"
    unfolding nkm n_ev_def using assms(3,5) by simp
  then have "n_ev + n_km + 2 < 2 ^ 64" by simp
  from initialize_total [OF this] obtain st0 where
    i: "initialize hmm_result n_ev n_km ps = Some st0" by blast
  note ir = initialize_result [OF i]
  have nb0: "n_bands st0 = n_ev + n_km + 2"
    using ir(2) small by (simp add: size_t_add_def)
  have sh0: "n_kmers st0 = n_km" "bandwidth st0 = p_bandwidth ps"
    "length (band_scores st0) = n_bands st0 * bandwidth st0"
    "length (trace st0) = n_bands st0 * bandwidth st0"
    "length (band_origins st0) = n_bands st0"
    using ir(1) by (simp_all add: shape_def)
  have "n_bands st0 * bandwidth st0 \<le> 2 ^ 31 * 2 ^ 31"
    using nb0 small sh0(2) assms(2) by (intro mult_le_mono) simp_all
  then have prod: "n_bands st0 * bandwidth st0 < 2 ^ 64" by simp
  have ok0: "store_ok st0"
    using sh0 prod nb0 small assms(2) by (simp add: store_ok_def)
  have h: "int_of_size_t (p_bandwidth ps div 2) = int (bandwidth st0 div 2)"
    using assms(2) sh0(2) by (simp add: int_of_size_t_small)
  from seed_bands_total [OF ok0 ir(3) _ initialize_origins [OF i, unfolded h] refl, of fp pen]
    assms(1) sh0(2)
  obtain st1 where s: "seed_bands fp pen st0 = Some st1" by auto
  note sk = seed_bands_keeps [OF s]
  have ok1: "store_ok st1" using store_ok_shape [OF sk(1)] ok0 by simp
  have nb1: "n_bands st1 = n_bands st0" and nk1: "n_kmers st1 = n_km"
    using sk(1) sh0(1) by (simp_all add: shape_def)
  have gn: "get_num_bands st1 = int (n_bands st1)"
    using ok1 by (simp add: get_num_bands_def int_of_size_t_small store_ok_def)
  let ?xs = "[2..int (n_bands st1) - 1]"
  let ?P = "\<lambda>(n::nat) s. shape s = shape st1"
  have "\<exists>st. for_loop ?xs (fill_band fp pen (in_emission inp) ranks n_ev) st1 = Some st
          \<and> ?P (length ?xs) st"
  proof (rule for_loop_total_indexed [of ?P])
    show "?P 0 st1" by simp
  next
    fix n s assume n: "n < length ?xs" and P: "?P n s"
    then have n': "n + 2 < n_bands st1" by simp
    then have nth: "?xs ! n = int (n + 2)" by (subst nth_upto) simp_all
    have oks: "store_ok s" using store_ok_shape [OF P] ok1 by simp
    have nbs: "n_bands s = n_bands st1" and nks: "n_kmers s = length ranks"
      using P nk1 by (simp_all add: shape_def ranks_def)
    have "length ranks < 2 ^ 31" using small by (simp add: ranks_def)
    from fill_band_total [OF oks _ _ nks this, of "n + 2" fp pen "in_emission inp" n_ev]
      n' nbs
    obtain s' where f: "fill_band fp pen (in_emission inp) ranks n_ev (int (n + 2)) s = Some s'"
      by auto
    from fill_band_shape [OF f] P have "?P (Suc n) s'" by simp
    with f show "\<exists>s'. fill_band fp pen (in_emission inp) ranks n_ev (?xs ! n) s = Some s'
        \<and> ?P (Suc n) s'"
      unfolding nth by blast
  qed
  then obtain st where
    l: "for_loop ?xs (fill_band fp pen (in_emission inp) ranks n_ev) st1 = Some st" by blast
  have "n_km \<le> vector_max_size" using small by (simp add: vector_max_size_def)
  moreover have "n_km \<le> in_sequence_size inp + 1" using nkm by simp
  ultimately have r: "precompute_kmer_ranks inp n_km = Some ranks"
    unfolding ranks_def by (rule precompute_kmer_ranks_result)
  show ?thesis
    unfolding generic_banded_simple_hmm_def Let_def n_km_def [symmetric] n_ev_def [symmetric]
      pen_def [symmetric]
    by (simp add: r i s gn l)
qed


subsection \<open>The cells the driver does not fill\<close>

lemma cell_pos_inj:
  fixes bw :: nat
  assumes "n < bw" "n' < bw" "b * bw + n = b' * bw + n'"
  shows "b = b' \<and> n = n'"
proof -
  have "(b * bw + n) div bw = b" "(b * bw + n) mod bw = n" using assms(1) by simp_all
  moreover have "(b' * bw + n') div bw = b'" "(b' * bw + n') mod bw = n'"
    using assms(2) by simp_all
  ultimately show ?thesis using assms(3) by simp
qed

lemma cell_index_valid:
  assumes "store_ok st" "b < n_bands st" "is_offset_valid st off"
  shows "cell_index st b off = b * bandwidth st + size_t_of_int off"
    and "size_t_of_int off < bandwidth st"
proof -
  define m where "m = size_t_of_int off"
  from assms(3) show m: "size_t_of_int off < bandwidth st" by (simp add: is_offset_valid_def)
  have "b * bandwidth st + m < Suc b * bandwidth st" using m by (simp add: m_def)
  also have "\<dots> \<le> n_bands st * bandwidth st"
    using assms(2) by (intro mult_le_mono1) simp
  finally have "b * bandwidth st + m < n_bands st * bandwidth st" .
  with assms(1) have "b * bandwidth st + m < 2 ^ 64" by (simp add: store_ok_def)
  then show "cell_index st b off = b * bandwidth st + size_t_of_int off"
    by (simp add: cell_index_def m_def [symmetric] size_t_add_def size_t_mul_def)
qed

lemma unfilled_inv_mono: "unfilled_inv j st \<Longrightarrow> j \<le> J \<Longrightarrow> unfilled_inv J st"
  by (auto simp: unfilled_inv_def)

lemma outside_grid_cong:
  assumes "shape st' = shape st" "band_origins st' ! b = band_origins st ! b"
  shows "outside_grid st' b n = outside_grid st b n"
  using assms by (simp add: outside_grid_def shape_def)

lemma set_cell_unfilled_inv:
  assumes inv: "unfilled_inv J st" and ok: "store_ok st"
    and s: "set_cell st j off val t = Some st'"
    and j: "j < n_bands st" "j < J" and v: "is_offset_valid st off"
    and inside: "\<not> outside_grid st j (size_t_of_int off)"
  shows "unfilled_inv J st'"
  unfolding unfilled_inv_def
proof (intro allI impI)
  fix b n
  assume b: "b < n_bands st'" and n: "n < bandwidth st'"
    and out: "b < J \<longrightarrow> outside_grid st' b n"
  note k = set_cell_keeps [OF s]
  from k(1) have sh: "n_bands st' = n_bands st" "bandwidth st' = bandwidth st"
    by (simp_all add: shape_def)
  have og: "outside_grid st' b n = outside_grid st b n"
    using k by (intro outside_grid_cong) simp_all
  note ci = cell_index_valid [OF ok j(1) v]
  have nf: "never_filled (b * bandwidth st + n) st"
    using inv b n out og sh by (simp add: unfilled_inv_def)
  have "b \<noteq> j \<or> n \<noteq> size_t_of_int off"
    using out og inside j(2) by auto
  then have "cell_index st j off \<noteq> b * bandwidth st + n"
    unfolding ci(1) using cell_pos_inj [of "size_t_of_int off" "bandwidth st" n j b] ci(2) n sh
    by auto
  from never_filled.after_set [OF nf s this] show "never_filled (b * bandwidth st' + n) st'"
    by (simp add: sh)
qed

lemma set3_unfilled_inv:
  assumes inv: "unfilled_inv J st" and ok: "store_ok st"
    and s: "set3 st j off d u l = Some st'"
    and j: "j < n_bands st" "j < J" and v: "is_offset_valid st off"
    and inside: "\<not> outside_grid st j (size_t_of_int off)"
  shows "unfilled_inv J st'"
  unfolding unfilled_inv_def
proof (intro allI impI)
  fix b n
  assume b: "b < n_bands st'" and n: "n < bandwidth st'"
    and out: "b < J \<longrightarrow> outside_grid st' b n"
  note k = set3_keeps [OF s]
  from k(1) have sh: "n_bands st' = n_bands st" "bandwidth st' = bandwidth st"
    by (simp_all add: shape_def)
  have og: "outside_grid st' b n = outside_grid st b n"
    using k by (intro outside_grid_cong) simp_all
  note ci = cell_index_valid [OF ok j(1) v]
  have nf: "never_filled (b * bandwidth st + n) st"
    using inv b n out og sh by (simp add: unfilled_inv_def)
  have "b \<noteq> j \<or> n \<noteq> size_t_of_int off"
    using out og inside j(2) by auto
  then have "cell_index st j off \<noteq> b * bandwidth st + n"
    unfolding ci(1) using cell_pos_inj [of "size_t_of_int off" "bandwidth st" n j b] ci(2) n sh
    by auto
  from never_filled.after_set3 [OF nf s this] show "never_filled (b * bandwidth st' + n) st'"
    by (simp add: sh)
qed


lemma origins_ok_kmer_lower:
  assumes "origins_ok os j" "i < j"
  shows "kmer_idx (os ! 0) \<le> kmer_idx (os ! i)"
  using assms(2)
proof (induction i)
  case 0
  then show ?case by simp
next
  case (Suc i)
  then have "os ! Suc i = move_band_down (os ! i) \<or> os ! Suc i = move_band_right (os ! i)"
    using assms(1) by (simp add: origins_ok_def)
  then have "kmer_idx (os ! i) \<le> kmer_idx (os ! Suc i)"
    by (auto simp: move_band_down_def move_band_right_def)
  with Suc show ?case by simp
qed

lemma size_t_of_int_nonneg: "0 \<le> i \<Longrightarrow> i < 2 ^ 64 \<Longrightarrow> int (size_t_of_int i) = i"
  by (simp add: size_t_of_int_def)

lemma offset_range_in_grid:
  assumes r: "get_offset_range_for_band st b = Some (lo, hi)"
    and len: "b < length (band_origins st)"
    and sizes: "n_kmers st < 2 ^ 31" "n_events st \<le> 2 ^ 31" "bandwidth st < 2 ^ 31"
    and off: "lo \<le> off" "off \<le> hi - 1"
  shows "is_offset_valid st off" and "\<not> outside_grid st b (size_t_of_int off)"
proof -
  define ev0 where "ev0 = event_idx (band_origins st ! b)"
  define km0 where "km0 = kmer_idx (band_origins st ! b)"
  have c: "int_of_size_t (n_kmers st) = int (n_kmers st)"
    "int_of_size_t (size_t_sub (n_events st) 1) = int (n_events st) - 1"
    "int_of_size_t (bandwidth st) = int (bandwidth st)"
    using sizes int_of_size_t_sub_1 [of "n_events st"] by (simp_all add: int_of_size_t_small)
  from r have lo: "lo = max (max (0 - km0) (ev0 - (int (n_events st) - 1))) 0"
    and hi: "hi = min (min (int (n_kmers st) - km0) (ev0 - (- 1))) (int (bandwidth st))"
    unfolding get_offset_range_for_band_def origin_reads [OF len] c ev0_def km0_def
    by (simp_all add: Let_def)
  from off lo hi have b: "0 \<le> off" "off < int (bandwidth st)"
    and g: "0 \<le> km0 + off" "km0 + off < int (n_kmers st)"
      "0 \<le> ev0 - off" "ev0 - off < int (n_events st)"
    by simp_all
  from b sizes(3) have "off < 2 ^ 64" by simp
  with b(1) have i: "int (size_t_of_int off) = off" by (rule size_t_of_int_nonneg)
  with b show "is_offset_valid st off" by (simp add: is_offset_valid_def)
  from g show "\<not> outside_grid st b (size_t_of_int off)"
    by (simp add: outside_grid_def i ev0_def km0_def)
qed

lemma fill_trim_unfilled_inv:
  assumes inv: "unfilled_inv J st" and ok: "store_ok st"
    and t: "fill_trim fp pen n_ev (int j) st = Some st'"
    and j: "j < n_bands st" "j < J"
    and low: "- (2 ^ 31) - 1 \<le> kmer_idx (band_origins st ! j)"
  shows "unfilled_inv J st'"
proof -
  have "j < 2 ^ 64" using j(1) ok by (simp add: store_ok_def)
  then have sb: "size_t_of_int (int j) = j" by (rule size_t_of_int_of_nat)
  have len: "j < length (band_origins st)" using j(1) ok by (simp add: store_ok_def)
  define trim where "trim = - 1 - kmer_idx (band_origins st ! j)"
  show ?thesis
  proof (cases "is_offset_valid st trim")
    case False
    with t have "st' = st"
      unfolding fill_trim_def sb origin_reads [OF len] by (simp add: trim_def)
    with inv show ?thesis by simp
  next
    case True
    from t True obtain v tg where s: "set_cell st j trim v tg = Some st'"
      unfolding fill_trim_def sb origin_reads [OF len]
      by (auto simp: trim_def split: if_splits)
    from True have "0 \<le> trim" by (simp add: is_offset_valid_def)
    moreover have "trim < 2 ^ 64" using low by (simp add: trim_def)
    ultimately have "int (size_t_of_int trim) = trim" by (rule size_t_of_int_nonneg)
    then have "\<not> outside_grid st j (size_t_of_int trim)"
      by (simp add: outside_grid_def trim_def)
    from set_cell_unfilled_inv [OF inv ok s j True this] show ?thesis .
  qed
qed

lemma fill_cell_unfilled_inv:
  assumes inv: "unfilled_inv J st" and ok: "store_ok st"
    and f: "fill_cell fp pen em ranks (int j) off st = Some st'"
    and j: "j < n_bands st" "j < J" and v: "is_offset_valid st off"
    and inside: "\<not> outside_grid st j (size_t_of_int off)"
  shows "unfilled_inv J st'"
proof -
  have "j < 2 ^ 64" using j(1) ok by (simp add: store_ok_def)
  then have sb: "size_t_of_int (int j) = j" by (rule size_t_of_int_of_nat)
  from f obtain d u l where "set3 st j off d u l = Some st'"
    unfolding fill_cell_def sb by (auto split: bind_splits prod.splits)
  from set3_unfilled_inv [OF inv ok this j v inside] show ?thesis .
qed

lemma fill_band_unfilled_inv:
  assumes fb: "fill_band fp pen em ranks n_ev (int j) st = Some st'"
    and ok: "store_ok st" and j: "1 \<le> j" "j < n_bands st"
    and oo: "origins_ok (band_origins st) j"
    and low: "- (2 ^ 31) - 1 \<le> kmer_idx (band_origins st ! 0)"
    and sizes: "n_kmers st < 2 ^ 31" "n_events st \<le> 2 ^ 31"
    and inv: "unfilled_inv j st"
  shows "unfilled_inv (Suc j) st'" and "band_origins st' ! 0 = band_origins st ! 0"
proof -
  have j64: "j < 2 ^ 64" using j(2) ok by (simp add: store_ok_def)
  then have sb: "size_t_of_int (int j) = j" by (rule size_t_of_int_of_nat)
  from fb obtain st1 st2 lo hi where
    d: "determine_band_origin st j = Some st1"
    and t: "fill_trim fp pen n_ev (int j) st1 = Some st2"
    and r: "get_offset_range_for_band st2 j = Some (lo, hi)"
    and l: "for_loop [lo..hi - 1] (fill_cell fp pen em ranks (int j)) st2 = Some st'"
    unfolding fill_band_def sb by (auto split: bind_splits prod.splits)
  from determine_band_origin_result [OF d j(1) j64] obtain origin where
    len: "j < length (band_origins st)"
    and o: "origin = move_band_right (band_origins st ! (j - 1)) \<or>
            origin = move_band_down (band_origins st ! (j - 1))"
    and st1: "st1 = st\<lparr>band_origins := (band_origins st)[j := origin]\<rparr>"
    by blast
  have so: "set_origin st j origin = Some st1"
    using len by (simp add: set_origin_def st1)
  have sh1: "shape st1 = shape st" unfolding st1 by (simp add: shape_def)
  have ok1: "store_ok st1" using store_ok_shape [OF sh1] ok by simp
  have nb1: "n_bands st1 = n_bands st" "bandwidth st1 = bandwidth st"
    using sh1 by (simp_all add: shape_def)
  have oo1: "origins_ok (band_origins st1) (Suc j)"
    unfolding st1 using origins_ok_step [OF oo _ len o] j(1) by simp
  have o0: "band_origins st1 ! 0 = band_origins st ! 0"
    unfolding st1 using j(1) by simp
  have inv1: "unfilled_inv j st1"
    unfolding unfilled_inv_def
  proof (intro allI impI)
    fix b n
    assume b: "b < n_bands st1" and n: "n < bandwidth st1"
      and out: "b < j \<longrightarrow> outside_grid st1 b n"
    have "outside_grid st1 b n = outside_grid st b n" if "b < j"
      using that sh1 by (intro outside_grid_cong) (simp_all add: st1)
    with inv b n out nb1 have "never_filled (b * bandwidth st + n) st"
      by (simp add: unfilled_inv_def)
    from never_filled.after_set_origin [OF this so]
    show "never_filled (b * bandwidth st1 + n) st1" by (simp add: nb1)
  qed
  then have inv1': "unfilled_inv (Suc j) st1" by (rule unfilled_inv_mono) simp
  have "kmer_idx (band_origins st1 ! 0) \<le> kmer_idx (band_origins st1 ! j)"
    using origins_ok_kmer_lower [OF oo1, of j] by simp
  with low o0 have low1: "- (2 ^ 31) - 1 \<le> kmer_idx (band_origins st1 ! j)" by simp
  have inv2: "unfilled_inv (Suc j) st2"
    using fill_trim_unfilled_inv [OF inv1' ok1 t _ _ low1] j(2) nb1 by simp
  note k2 = fill_trim_keeps [OF t]
  have ok2: "store_ok st2" using store_ok_shape [OF k2(1)] ok1 by simp
  have sz2: "n_kmers st2 < 2 ^ 31" "n_events st2 \<le> 2 ^ 31" "bandwidth st2 < 2 ^ 31"
    "n_bands st2 = n_bands st"
    using k2(1) sh1 sizes ok2 by (simp_all add: shape_def store_ok_def)
  have len2: "j < length (band_origins st2)" using k2(2) len by (simp add: st1)
  let ?xs = "[lo..hi - 1]"
  let ?P = "\<lambda>(n::nat) s. shape s = shape st2 \<and> band_origins s = band_origins st2 \<and>
              unfilled_inv (Suc j) s"
  have "?P (length ?xs) st'"
  proof (rule for_loop_invariant [OF l, of ?P])
    show "?P 0 st2" using inv2 by simp
  next
    fix n s s'
    assume n: "n < length ?xs" and P: "?P n s"
      and f: "fill_cell fp pen em ranks (int j) (?xs ! n) s = Some s'"
    define off where "off = ?xs ! n"
    from n have "off \<in> set ?xs" unfolding off_def by (rule nth_mem)
    then have rng: "lo \<le> off" "off \<le> hi - 1" by simp_all
    note g = offset_range_in_grid [OF r len2 sz2(1-3) rng]
    from P have sh: "shape s = shape st2" and bo: "band_origins s = band_origins st2"
      and inv: "unfilled_inv (Suc j) s" by simp_all
    have oks: "store_ok s" using store_ok_shape [OF sh] ok2 by simp
    have v: "is_offset_valid s off"
      using g(1) sh by (simp add: is_offset_valid_def shape_def)
    have ins: "\<not> outside_grid s j (size_t_of_int off)"
      using g(2) outside_grid_cong [OF sh, of j] bo by simp
    have jb: "j < n_bands s" using sh sz2(4) j(2) by (simp add: shape_def)
    from fill_cell_unfilled_inv [OF inv oks f [folded off_def] jb _ v ins]
    have "unfilled_inv (Suc j) s'" by simp
    with fill_cell_keeps [OF f] sh bo show "?P (Suc n) s'" by simp
  qed
  then show "unfilled_inv (Suc j) st'" and "band_origins st' ! 0 = band_origins st ! 0"
    using k2(2) o0 by simp_all
qed


lemma int_of_size_t_range: "- (2 ^ 31) \<le> int_of_size_t n" "int_of_size_t n < 2 ^ 31"
proof -
  define m where "m = int n mod 2 ^ 32"
  have "0 \<le> m" "m < 2 ^ 32" by (simp_all add: m_def)
  then show "- (2 ^ 31) \<le> int_of_size_t n" "int_of_size_t n < 2 ^ 31"
    unfolding int_of_size_t_def Let_def m_def [symmetric] by simp_all
qed

lemma initialize_unfilled_inv:
  assumes "initialize st n_ev n_km ps = Some st0"
  shows "unfilled_inv 0 st0"
  unfolding unfilled_inv_def
proof (intro allI impI)
  fix b n assume b: "b < n_bands st0" and n: "n < bandwidth st0"
  have "b * bandwidth st0 + n < Suc b * bandwidth st0" using n by simp
  also have "\<dots> \<le> n_bands st0 * bandwidth st0"
    using b by (intro mult_le_mono1) simp
  finally show "never_filled (b * bandwidth st0 + n) st0"
    by (rule never_filled.after_initialize [OF assms])
qed

lemma seed_bands_unfilled_inv:
  assumes s: "seed_bands fp pen st = Some st'"
    and ok: "store_ok st" and nb: "2 \<le> n_bands st"
    and low: "- (2 ^ 31) - 1 \<le> kmer_idx (band_origins st ! 0)"
      "- (2 ^ 31) - 1 \<le> kmer_idx (band_origins st ! 1)"
    and inv: "unfilled_inv 2 st"
  shows "unfilled_inv 2 st'"
proof -
  have len: "0 < length (band_origins st)" "1 < length (band_origins st)"
    using ok nb by (simp_all add: store_ok_def)
  define start where "start = - 1 - kmer_idx (band_origins st ! 0)"
  from s obtain st1 where
    v0: "is_offset_valid st start"
    and s1: "set_cell st 0 start (Num 0) 0 = Some st1"
    and rest: "do {
         first_trim_offset \<leftarrow> get_offset_for_event_in_band st1 1 0;
         first_trim_kmer \<leftarrow> get_kmer_at_band_offset st1 1 first_trim_offset;
         if first_trim_kmer \<noteq> - 1 \<or> \<not> is_offset_valid st1 first_trim_offset
         then None
         else set_cell st1 1 first_trim_offset (narrow fp (lp_trim pen)) SHMM_FROM_U
       } = Some st'"
    unfolding seed_bands_def origin_reads [OF len(1)] start_def
    by (auto split: bind_splits if_splits)
  note k1 = set_cell_keeps [OF s1]
  have ok1: "store_ok st1" using store_ok_shape [OF k1(1)] ok by simp
  have nb1: "n_bands st1 = n_bands st" using k1(1) by (simp add: shape_def)
  have len1: "1 < length (band_origins st1)" using len k1(2) by simp
  from v0 have "0 \<le> start" by (simp add: is_offset_valid_def)
  moreover have "start < 2 ^ 64" using low(1) by (simp add: start_def)
  ultimately have "int (size_t_of_int start) = start" by (rule size_t_of_int_nonneg)
  then have in0: "\<not> outside_grid st 0 (size_t_of_int start)"
    by (simp add: outside_grid_def start_def)
  have inv1: "unfilled_inv 2 st1"
    using set_cell_unfilled_inv [OF inv ok s1 _ _ v0 in0] nb by simp
  define fto where "fto = event_idx (band_origins st1 ! 1)"
  from rest have km: "kmer_idx (band_origins st1 ! 1) + fto = - 1"
    and v1: "is_offset_valid st1 fto"
    and s2: "set_cell st1 1 fto (narrow fp (lp_trim pen)) SHMM_FROM_U = Some st'"
    using origin_reads [OF len1] unfolding fto_def
    by (auto simp: One_nat_def split: bind_splits if_splits)
  from v1 have "0 \<le> fto" by (simp add: is_offset_valid_def)
  moreover have "fto < 2 ^ 64" using low(2) km k1(2) by simp
  ultimately have "int (size_t_of_int fto) = fto" by (rule size_t_of_int_nonneg)
  then have in1: "\<not> outside_grid st1 1 (size_t_of_int fto)"
    using km by (simp add: outside_grid_def)
  show ?thesis
    using set_cell_unfilled_inv [OF inv1 ok1 s2 _ _ v1 in1] nb nb1 by simp
qed

lemma driver_unfilled_inv:
  assumes run: "generic_banded_simple_hmm fp inp ps hmm_result = Some st"
    and small: "n_events st + n_kmers st + 2 < 2 ^ 31" "bandwidth st < 2 ^ 31"
  shows "unfilled_inv (n_bands st) st"
proof -
  define n_km where "n_km = size_t_add (size_t_sub (in_sequence_size inp) (in_k inp)) 1"
  define n_ev where "n_ev = in_n_events inp"
  define pen where "pen = transition_penalties fp n_ev n_km ps"
  from run obtain ranks st0 st1 where
    i: "initialize hmm_result n_ev n_km ps = Some st0"
    and s: "seed_bands fp pen st0 = Some st1"
    and l: "for_loop [2..get_num_bands st1 - 1]
              (fill_band fp pen (in_emission inp) ranks n_ev) st1 = Some st"
    unfolding generic_banded_simple_hmm_def Let_def n_km_def [symmetric] n_ev_def [symmetric]
      pen_def [symmetric]
    by (auto split: bind_splits)
  note ir = initialize_result [OF i]
  note sk = seed_bands_keeps [OF s]
  have sh: "shape st = shape st1"
    using for_loop_preserves [OF l, of shape] fill_band_shape by blast
  then have sh0: "shape st = shape st0" using sk(1) by simp
  from sh0 ir(1) have e: "n_kmers st = n_km" "n_events st = n_ev"
    "bandwidth st = p_bandwidth ps" by (simp_all add: shape_def)
  have sum: "n_ev + n_km + 2 < 2 ^ 31" using small(1) e by simp
  then have nb0: "n_bands st0 = n_ev + n_km + 2"
    using ir(2) by (simp add: size_t_add_def)
  have f0: "n_kmers st0 = n_km" "n_events st0 = n_ev" "bandwidth st0 = p_bandwidth ps"
    "length (band_scores st0) = n_bands st0 * bandwidth st0"
    "length (trace st0) = n_bands st0 * bandwidth st0"
    "length (band_origins st0) = n_bands st0"
    using ir(1) by (simp_all add: shape_def)
  have "n_bands st0 * bandwidth st0 \<le> 2 ^ 31 * 2 ^ 31"
    using nb0 sum f0(3) small(2) e(3) by (intro mult_le_mono) simp_all
  then have prod: "n_bands st0 * bandwidth st0 < 2 ^ 64" by simp
  have ok0: "store_ok st0"
    using f0 prod nb0 sum small(2) e(3) by (simp add: store_ok_def)
  have low0: "- (2 ^ 31) - 1 \<le> kmer_idx (band_origins st0 ! 0)"
    "- (2 ^ 31) - 1 \<le> kmer_idx (band_origins st0 ! 1)"
    using initialize_origins [OF i] int_of_size_t_range(2) [of "p_bandwidth ps div 2"]
    by simp_all
  have "unfilled_inv 2 st0"
    using initialize_unfilled_inv [OF i] by (rule unfilled_inv_mono) simp
  from seed_bands_unfilled_inv [OF s ok0 ir(3) low0 this]
  have inv1: "unfilled_inv 2 st1" .
  have ok1: "store_ok st1" using store_ok_shape [OF sk(1)] ok0 by simp
  have nb1: "n_bands st1 = n_ev + n_km + 2" using sk(1) nb0 by (simp add: shape_def)
  have gn: "get_num_bands st1 = int (n_bands st1)"
    using ok1 by (simp add: get_num_bands_def int_of_size_t_small store_ok_def)
  let ?xs = "[2..int (n_bands st1) - 1]"
  let ?P = "\<lambda>n s. shape s = shape st1 \<and> origins_ok (band_origins s) (n + 2) \<and>
              band_origins s ! 0 = band_origins st1 ! 0 \<and> unfilled_inv (n + 2) s"
  have len: "length ?xs = n_bands st1 - 2" using nb1 by simp
  have "?P (length ?xs) st"
  proof (rule for_loop_invariant [OF l [unfolded gn], of ?P])
    show "?P 0 st1" using ir(4) sk(2) inv1 by (simp add: numeral_2_eq_2)
  next
    fix n s s'
    assume n: "n < length ?xs" and P: "?P n s"
      and f: "fill_band fp pen (in_emission inp) ranks n_ev (?xs ! n) s = Some s'"
    from n have n': "n + 2 < n_bands st1" using len by simp
    then have nth: "?xs ! n = int (n + 2)" by (subst nth_upto) simp_all
    note fb = f [unfolded nth]
    from P have shs: "shape s = shape st1" and oo: "origins_ok (band_origins s) (n + 2)"
      and o0: "band_origins s ! 0 = band_origins st1 ! 0"
      and inv: "unfilled_inv (n + 2) s" by simp_all
    have oks: "store_ok s" using store_ok_shape [OF shs] ok1 by simp
    have szs: "n_bands s = n_bands st1" "n_kmers s < 2 ^ 31" "n_events s \<le> 2 ^ 31"
      using shs sk(1) f0(1,2) sum by (simp_all add: shape_def)
    have lows: "- (2 ^ 31) - 1 \<le> kmer_idx (band_origins s ! 0)"
      using o0 sk(2) low0(1) by simp
    have "n + 2 < 2 ^ 64" using n' nb1 sum by simp
    from fill_band_step [OF fb _ this oo]
    have a: "shape s' = shape s" "origins_ok (band_origins s') (Suc (n + 2))" by simp_all
    from fill_band_unfilled_inv [OF fb oks _ _ oo lows szs(2,3) inv] n' szs(1)
    have b: "unfilled_inv (Suc (n + 2)) s'" "band_origins s' ! 0 = band_origins s ! 0"
      by simp_all
    from a b shs o0 show "?P (Suc n) s'" by simp
  qed
  moreover have "length ?xs + 2 = n_bands st" using len nb1 sh by (simp add: shape_def)
  ultimately show ?thesis by simp
qed

lemma driver_never_filled:
  assumes "generic_banded_simple_hmm fp inp ps hmm_result = Some st"
    and "n_events st + n_kmers st + 2 < 2 ^ 31" "bandwidth st < 2 ^ 31"
    and "band_idx < n_bands st" "n < bandwidth st" "outside_grid st band_idx n"
  shows "never_filled (band_idx * bandwidth st + n) st"
  using driver_unfilled_inv [OF assms(1-3)] assms(4-6) by (simp add: unfilled_inv_def)

text \<open>In the small run the cell at offset \<open>0\<close> of band 4 is one of them.\<close>

lemma example_never_filled: "never_filled 8 example_result"
proof -
  have "never_filled (4 * bandwidth example_result + 0) example_result"
    by (rule driver_never_filled [OF example_run])
      (simp_all add: example_result_def outside_grid_def)
  then show ?thesis by (simp add: example_result_def)
qed


subsection \<open>Cells outside the band and cells never filled\<close>

lemma initialize_trace:
  assumes "initialize st0 n_ev n_km ps = Some st"
  shows "trace st = replicate (n_bands st * bandwidth st) SHMM_FROM_D"
  using assms
  by (auto simp: initialize_def Let_def set_origin_def SHMM_FROM_D_def
      split: bind_splits if_splits)

lemma set_cell_trace:
  assumes "set_cell st band_idx band_offset val from = Some st'"
  shows "trace st' = (trace st)[cell_index st band_idx band_offset := from]"
  using assms by (auto simp: set_cell_def Let_def split: if_splits)

lemma set3_trace:
  assumes "set3 st band_idx band_offset score_d score_u score_l = Some st'"
  shows "\<exists>from. trace st' = (trace st)[cell_index st band_idx band_offset := from]"
  using assms set_cell_trace
  by (fastforce simp: set3_def split: bind_splits prod.splits)

text \<open>A cell never filled holds the tag that \<^verbatim>\<open>initialize\<close> wrote, \<^verbatim>\<open>SHMM_FROM_D\<close>.\<close>

lemma never_filled_tag:
  assumes "never_filled idx st"
  shows "rd (trace st) idx = Some SHMM_FROM_D"
  using assms
proof (induction rule: never_filled.induct)
  case (after_initialize st0 n_ev n_km ps st)
  then show ?case by (simp add: initialize_trace rd_def)
next
  case (after_set st band_idx band_offset val "from" st')
  then show ?case by (auto simp: set_cell_trace rd_def split: if_splits)
next
  case (after_set3 st band_idx band_offset score_d score_u score_l st')
  from set3_trace [OF after_set3.hyps(2)] after_set3.hyps(3) after_set3.IH show ?case
    by (auto simp: rd_def split: if_splits)
next
  case (after_set_origin st band_idx origin st')
  then show ?case by (auto simp: set_origin_def split: if_splits)
qed

text \<open>
  C10. For every band index and every invalid offset (negative, or not below the
  bandwidth), \<open>get_trace\<close> returns \<open>0\<close>, and \<open>0\<close> is the tag \<open>SHMM_FROM_D\<close>. So when the
  backward walk stands on a cell that lies outside its band, or that has never been
  filled since \<^verbatim>\<open>initialize\<close>, it reads a diagonal move: it goes on from the position with
  both indices decremented, not in skip mode.
\<close>

theorem invalid_offset_is_diagonal_move:
  "SHMM_FROM_D = 0 \<and>
   (\<not> is_offset_valid st band_offset \<longrightarrow> get_trace st band_idx band_offset = Some SHMM_FROM_D) \<and>
   (band_offset < 2 ^ 31 \<and> (band_offset < 0 \<or> band_offset \<ge> int (bandwidth st))
      \<longrightarrow> get_trace st band_idx band_offset = Some SHMM_FROM_D) \<and>
   (0 \<le> k \<and> 0 \<le> e \<and>
    get_offset_for_event_in_band st (size_t_of_int (event_kmer_to_band e k)) e = Some offset \<and>
    get_offset_for_kmer_in_band st (size_t_of_int (event_kmer_to_band e k)) k = Some offset \<and>
    (\<not> is_offset_valid st offset \<or>
     never_filled (cell_index st (size_t_of_int (event_kmer_to_band e k)) offset) st)
      \<longrightarrow> get_trace st (size_t_of_int (event_kmer_to_band e k)) offset = Some SHMM_FROM_D \<and>
          backtrack_walk st k e is_skip out =
            backtrack_walk st (k - 1) (e - 1) False (if is_skip then out else out @ [(k, e)]))"
proof -
  have invalid: "get_trace s b off = Some SHMM_FROM_D" if "\<not> is_offset_valid s off" for s b off
    using that by (simp add: get_trace_def SHMM_FROM_D_def)
  have range: "\<not> is_offset_valid st band_offset"
    if "band_offset < 2 ^ 31" "band_offset < 0 \<or> band_offset \<ge> int (bandwidth st)"
  proof (cases "band_offset < 0")
    case True
    then show ?thesis by (simp add: is_offset_valid_def)
  next
    case False
    then obtain n where n: "band_offset = int n" using nonneg_int_cases [of band_offset] by auto
    with that(1) have "n < 2 ^ 64" by simp
    from size_t_of_int_of_nat [OF this] that(2) False n show ?thesis
      by (simp add: is_offset_valid_def)
  qed
  have walk: "get_trace st (size_t_of_int (event_kmer_to_band e k)) offset = Some SHMM_FROM_D \<and>
      backtrack_walk st k e is_skip out =
        backtrack_walk st (k - 1) (e - 1) False (if is_skip then out else out @ [(k, e)])"
    if ke: "0 \<le> k" "0 \<le> e"
      and oe: "get_offset_for_event_in_band st (size_t_of_int (event_kmer_to_band e k)) e
                 = Some offset"
      and ok: "get_offset_for_kmer_in_band st (size_t_of_int (event_kmer_to_band e k)) k
                 = Some offset"
      and cell: "\<not> is_offset_valid st offset \<or>
                 never_filled (cell_index st (size_t_of_int (event_kmer_to_band e k)) offset) st"
  proof -
    have t: "get_trace st (size_t_of_int (event_kmer_to_band e k)) offset = Some SHMM_FROM_D"
    proof (cases "is_offset_valid st offset")
      case False
      then show ?thesis by (rule invalid)
    next
      case True
      with cell never_filled_tag show ?thesis by (simp add: get_trace_def)
    qed
    have "backtrack_walk st k e is_skip out =
        backtrack_walk st (k - 1) (e - 1) False (if is_skip then out else out @ [(k, e)])"
      using ke oe ok t by (subst backtrack_walk.simps) (simp add: Let_def)
    with t show ?thesis by simp
  qed
  show ?thesis
    using invalid [of st band_offset band_idx] range walk
    by (simp add: SHMM_FROM_D_def)
qed

text \<open>
  The witness, in the store of the small run. The cell of event 3 and k-mer 0 would lie
  at offset \<open>- 1\<close> of band 5, outside the band. The cell of event 2 and k-mer 0 lies at
  offset \<open>0\<close> of band 4; there is no event 2, and the driver has not filled it.
\<close>

theorem invalid_offset_is_diagonal_move_witness:
  "get_trace example_result 5 (- 1) = Some 0 \<and>
   get_trace example_result 3 1000 = Some 0 \<and>
   \<not> is_offset_valid example_result (- 1) \<and>
   backtrack_walk example_result 0 3 False [] = Some [(0, 3)] \<and>
   is_offset_valid example_result 0 \<and>
   never_filled (cell_index example_result 4 0) example_result \<and>
   backtrack_walk example_result 0 2 False [] = Some [(0, 2)]"
proof -
  have v: "\<not> is_offset_valid example_result (- 1)" "is_offset_valid example_result 0"
    by (simp_all add: is_offset_valid_def example_result_def size_t_of_int_def)
  have t1: "get_trace example_result 5 (- 1) = Some 0"
    using invalid_offset_is_diagonal_move
      [where st = example_result and band_offset = "- 1" and band_idx = 5] v(1)
    by (simp add: SHMM_FROM_D_def)
  have t2: "get_trace example_result 3 1000 = Some 0"
    using invalid_offset_is_diagonal_move
      [where st = example_result and band_offset = 1000 and band_idx = 3]
    by (simp add: SHMM_FROM_D_def example_result_def)
  have o3: "get_offset_for_event_in_band example_result (size_t_of_int (event_kmer_to_band 3 0)) 3
       = Some (- 1)"
    "get_offset_for_kmer_in_band example_result (size_t_of_int (event_kmer_to_band 3 0)) 0
       = Some (- 1)"
    by (simp_all add: example_result_def store_evals)
  have stop3: "backtrack_walk example_result (0 - 1) (3 - 1) False [(0, 3)] = Some [(0, 3)]"
    by (subst backtrack_walk.simps) simp
  have w1: "backtrack_walk example_result 0 3 False [] = Some [(0, 3)]"
    using invalid_offset_is_diagonal_move
      [where st = example_result and k = 0 and e = 3 and offset = "- 1" and is_skip = False
         and out = "[]"] o3 v(1) stop3
    by simp
  have b2: "size_t_of_int (event_kmer_to_band 2 0) = 4"
    by (simp add: event_kmer_to_band_def size_t_of_int_def)
  have o2: "get_offset_for_event_in_band example_result 4 2 = Some 0"
    "get_offset_for_kmer_in_band example_result 4 0 = Some 0"
    by (simp_all add: example_result_def store_evals)
  have c: "cell_index example_result 4 0 = 8"
    by (simp add: example_result_def store_evals)
  have nf: "never_filled (cell_index example_result 4 0) example_result"
    unfolding c by (rule example_never_filled)
  have stop2: "backtrack_walk example_result (0 - 1) (2 - 1) False [(0, 2)] = Some [(0, 2)]"
    by (subst backtrack_walk.simps) simp
  have w2: "backtrack_walk example_result 0 2 False [] = Some [(0, 2)]"
    using invalid_offset_is_diagonal_move
      [where st = example_result and k = 0 and e = 2 and offset = 0 and is_skip = False
         and out = "[]"] o2 nf stop2
    unfolding b2 by simp
  from t1 t2 v w1 nf w2 show ?thesis by simp
qed


subsection \<open>The alignment of an input without k-mers\<close>

lemma backtrack_without_kmers:
  assumes "generic_banded_simple_hmm fp inp ps hmm_result = Some st"
    and "in_sequence_size inp + 1 = in_k inp" "in_k inp < 2 ^ 64"
    and "in_n_events inp < 2 ^ 31" "p_bandwidth ps < 2 ^ 31"
  shows "n_kmers st = 0 \<and> backtrack fp st = Some []"
proof -
  have "size_t_sub (in_sequence_size inp) (in_k inp) = 2 ^ 64 - 1"
  proof -
    have "in_sequence_size inp + 2 ^ 64 - in_k inp = 2 ^ 64 - 1"
      using assms(2) by simp
    then show ?thesis by (simp add: size_t_sub_def)
  qed
  then have nk0: "size_t_add (size_t_sub (in_sequence_size inp) (in_k inp)) 1 = 0"
    by (simp add: size_t_add_def)
  note sh = driver_shape(1,2) [OF assms(1), unfolded nk0]
  have nk: "n_kmers st = 0" and ne: "n_events st = in_n_events inp"
    and bw: "bandwidth st = p_bandwidth ps"
    and ls: "length (band_scores st) = n_bands st * bandwidth st"
    and lo: "length (band_origins st) = n_bands st"
    using sh(1) by (simp_all add: shape_def)
  have nb: "n_bands st = n_events st + 2"
    using sh(2) assms(4) ne by (simp add: size_t_add_def)
  have "n_bands st * bandwidth st \<le> (2 ^ 31 + 1) * 2 ^ 31"
    using nb ne bw assms(4,5) by (intro mult_le_mono) simp_all
  then have small: "n_bands st * bandwidth st < 2 ^ 64" by simp
  have nb64: "n_bands st < 2 ^ 64" using nb ne assms(4) by simp
  from backtrack_scan_total_without_kmers [OF nk nb lo ls small nb64, of fp]
  obtain ms ce where sc: "backtrack_scan fp st = Some (ms, ce)" by auto
  have k: "int_of_size_t (size_t_sub (n_kmers st) 1) = - 1"
    using nk by (simp add: size_t_sub_def int_of_size_t_def)
  have w: "backtrack_walk st (- 1) ce False [] = Some []"
    by (subst backtrack_walk.simps) simp
  show ?thesis
    unfolding backtrack_def sc k using nk w by simp
qed



text \<open>
  C6 (as amended). When the candidate string is one symbol shorter than \<open>k\<close>, so that
  there is no k-mer, the driver returns a store (for a bandwidth of at least 1 and
  sizes that an \<^verbatim>\<open>int\<close> holds) and \<open>backtrack\<close> on it returns the empty alignment. (The
  claim says the same of an input without events; see the counterexample.)
\<close>

theorem empty_alignment_without_kmers:
  assumes "in_sequence_size inp + 1 = in_k inp" "in_sequence_size inp < 2 ^ 31"
    and "in_n_events inp + 2 < 2 ^ 31"
    and "1 \<le> p_bandwidth ps" "p_bandwidth ps < 2 ^ 31"
  shows "\<exists>st. generic_banded_simple_hmm fp inp ps hmm_result = Some st \<and>
           n_kmers st = 0 \<and> backtrack fp st = Some []"
proof -
  have "\<exists>st. generic_banded_simple_hmm fp inp ps hmm_result = Some st"
    using assms by (intro driver_returns) simp_all
  then obtain st where run: "generic_banded_simple_hmm fp inp ps hmm_result = Some st"
    by blast
  have k: "in_k inp < 2 ^ 64" using assms(1,2) by simp
  have e: "in_n_events inp < 2 ^ 31" using assms(3) by simp
  from backtrack_without_kmers [OF run assms(1) k e assms(5)] run show ?thesis by blast
qed

theorem empty_alignment_without_kmers_witness:
  "in_sequence_size no_kmers_input + 1 = in_k no_kmers_input \<and>
   (generic_banded_simple_hmm ideal_fpu no_kmers_input example_params fresh_result
      \<bind> (\<lambda>st. Some (n_kmers st))) = Some 0 \<and>
   (generic_banded_simple_hmm ideal_fpu no_kmers_input example_params fresh_result
      \<bind> backtrack ideal_fpu) = Some []"
proof -
  have h: "in_sequence_size no_kmers_input + 1 = in_k no_kmers_input"
    "in_sequence_size no_kmers_input < 2 ^ 31" "in_n_events no_kmers_input + 2 < 2 ^ 31"
    "1 \<le> p_bandwidth example_params" "p_bandwidth example_params < 2 ^ 31"
    by (simp_all add: no_kmers_input_def example_params_def)
  from empty_alignment_without_kmers [OF h, of ideal_fpu fresh_result] h(1)
  show ?thesis by auto
qed

text \<open>
  Counterexample to C6 as stated: with no event and one k-mer (bandwidth 2) the driver
  runs and \<open>backtrack\<close> returns one pair, of k-mer 0 and an event 0 that does not exist.
\<close>

theorem no_events_alignment_counterexample:
  "in_n_events no_events_input = 0 \<and>
   (generic_banded_simple_hmm ideal_fpu no_events_input example_params fresh_result
      \<bind> backtrack ideal_fpu) = Some [(0, 0)]"
proof -
  have nk: "size_t_add (size_t_sub (in_sequence_size no_events_input) (in_k no_events_input)) 1 = 1"
    by (simp add: no_events_input_def size_t_add_def size_t_sub_def)
  have ne: "in_n_events no_events_input = 0"
    by (simp add: no_events_input_def)
  have kr: "precompute_kmer_ranks no_events_input 1 = Some (map (in_kmer_rank no_events_input) [0..<1])"
    by (rule precompute_kmer_ranks_result) (simp_all add: no_events_input_def vector_max_size_def)
  show ?thesis
    unfolding generic_banded_simple_hmm_def Let_def nk ne kr no_events_transition_penalties
    by (simp add: no_events_input_def example_params_def fresh_result_def
        driver_evals store_evals fpu_evals replicate_6 replicate_3
        upto_rec1 backtrack_def backtrack_scan_def backtrack_walk.simps
        cong: option_bind_weak_cong split del: if_split)
qed


subsection \<open>The best score and the bandwidth\<close>

lemma flt_lt_trans: "flt_lt a b \<Longrightarrow> flt_lt b c \<Longrightarrow> flt_lt a c"
  by (cases a; cases b; cases c) auto

lemma flt_lt_not_NaN: "flt_lt a b \<Longrightarrow> a \<noteq> NaN \<and> b \<noteq> NaN"
  by (cases a; cases b) auto

lemma backtrack_scan_step_cases:
  assumes "backtrack_scan_step fp st (narrow fp (d_log fp (p_trim (parameters st))))
             (int_of_size_t (size_t_sub (n_kmers st) 1)) ev (m, c) = Some (m', c')"
  shows "(case termination_score fp st ev of
            Some s \<Rightarrow> if flt_lt m s then m' = s \<and> c' = ev else m' = m \<and> c' = c
          | None \<Rightarrow> m' = m \<and> c' = c)"
  using assms
  by (auto simp: backtrack_scan_step_def termination_score_def Let_def flt_gt_def
      split: bind_splits if_splits option.splits)


text \<open>
  C9 (as amended). The best score that the scan of \<open>backtrack\<close> finds is never NaN; it is
  minus infinity (with event 0 as the start of the walk) or the termination score of
  an event whose cell of the last k-mer lies in its band, and no such termination score
  is greater. It is the maximum over the cells that the bands of this bandwidth
  contain; nothing orders the values of two bandwidths (see the counterexample).
\<close>

theorem best_score_is_max_termination_score:
  assumes "backtrack_scan fp st = Some (max_score, curr_event_idx)"
  shows "max_score \<noteq> NaN \<and>
         ((max_score = NegInf \<and> curr_event_idx = 0) \<or>
          (\<exists>e<n_events st. termination_score fp st (int e) = Some max_score \<and>
             curr_event_idx = int e)) \<and>
         (\<forall>e<n_events st. \<forall>s. termination_score fp st (int e) = Some s
             \<longrightarrow> \<not> flt_lt max_score s)"
proof -
  let ?P = "\<lambda>n (acc :: flt \<times> int).
     fst acc \<noteq> NaN \<and>
     ((fst acc = NegInf \<and> snd acc = 0) \<or>
      (\<exists>e<n. termination_score fp st (int e) = Some (fst acc) \<and> snd acc = int e)) \<and>
     (\<forall>e<n. \<forall>s. termination_score fp st (int e) = Some s \<longrightarrow> \<not> flt_lt (fst acc) s)"
  let ?xs = "map int [0..<n_events st]"
  let ?body = "backtrack_scan_step fp st (narrow fp (d_log fp (p_trim (parameters st))))
                 (int_of_size_t (size_t_sub (n_kmers st) 1))"
  from assms have loop: "for_loop ?xs ?body (NegInf, 0) = Some (max_score, curr_event_idx)"
    by (simp add: backtrack_scan_def Let_def)
  have step: "?P (Suc n) acc'"
    if n: "n < length ?xs" and P: "?P n acc" and b: "?body (?xs ! n) acc = Some acc'"
    for n acc acc'
  proof -
    obtain m c where acc: "acc = (m, c)" by (cases acc)
    obtain m' c' where acc': "acc' = (m', c')" by (cases acc')
    from n have nth: "?xs ! n = int n" by simp
    note cs = backtrack_scan_step_cases [OF b [unfolded nth acc acc']]
    show ?thesis
    proof (cases "termination_score fp st (int n)")
      case None
      with cs have "m' = m" "c' = c" by simp_all
      with P None show ?thesis
        unfolding acc acc' by (auto simp: less_Suc_eq)
    next
      case (Some s)
      show ?thesis
      proof (cases "flt_lt m s")
        case True
        with cs Some have e: "m' = s" "c' = int n" by simp_all
        have "\<not> flt_lt s s'" if "e < n" "termination_score fp st (int e) = Some s'" for e s'
        proof
          assume "flt_lt s s'"
          with True have "flt_lt m s'" by (rule flt_lt_trans)
          with P that show False unfolding acc by auto
        qed
        moreover have "\<not> flt_lt s s" by (rule flt_lt_irrefl)
        ultimately show ?thesis
          unfolding acc' e using Some flt_lt_not_NaN [OF True]
          by (auto simp: less_Suc_eq)
      next
        case False
        with cs Some have "m' = m" "c' = c" by simp_all
        with P Some False show ?thesis
          unfolding acc acc' by (auto simp: less_Suc_eq)
      qed
    qed
  qed
  have "?P (length ?xs) (max_score, curr_event_idx)"
  proof (rule for_loop_invariant [OF loop, of ?P])
    show "?P 0 (NegInf, 0)" by simp
  qed (rule step)
  then show ?thesis by simp
qed


theorem best_score_is_max_termination_score_witness:
  "backtrack_scan ideal_fpu example_result = Some (Num (3 * ln (1 / 2)), 1) \<and>
   termination_score ideal_fpu example_result (int 1) = Some (Num (3 * ln (1 / 2))) \<and>
   termination_score ideal_fpu example_result (int 0) = Some (Num (4 * ln (1 / 2))) \<and>
   \<not> flt_lt (Num (3 * ln (1 / 2))) (Num (4 * ln (1 / 2)))"
proof -
  have sc: "backtrack_scan ideal_fpu example_result = Some (Num (3 * ln (1 / 2)), 1)"
    by (simp add: backtrack_scan_def backtrack_scan_step_def example_result_def
        example_params_def store_evals fpu_evals upt_rec)
  have t: "termination_score ideal_fpu example_result (int 0) = Some (Num (4 * ln (1 / 2)))"
    "termination_score ideal_fpu example_result (int 1) = Some (Num (3 * ln (1 / 2)))"
    by (simp_all add: termination_score_def example_result_def example_params_def
        store_evals fpu_evals)
  have n: "0 < n_events example_result" by (simp add: example_result_def)
  from best_score_is_max_termination_score [OF sc] n t(1)
  have "\<not> flt_lt (Num (3 * ln (1 / 2))) (Num (4 * ln (1 / 2)))" by blast
  with sc t show ?thesis by simp
qed

lemma ln_sixteenth: "ln (1 / 16 :: real) = 4 * ln (1 / 2)"
proof -
  have "(1 / 16 :: real) = (1 / 2) ^ 4" by (simp add: power_one_over)
  then have "ln (1 / 16 :: real) = ln ((1 / 2) ^ 4)" by simp
  also have "\<dots> = 4 * ln (1 / 2)" by (subst ln_realpow) simp_all
  finally show ?thesis .
qed

lemma score_transition_penalties:
  "transition_penalties ideal_fpu 4 4 (score_params bw) =
     \<lparr>lp_skip = Num (ln (1 / 2)), lp_stay = NegInf, lp_step = Num (ln (1 / 2)),
      lp_trim = Num (4 * ln (1 / 2))\<rparr>"
  by (simp add: transition_penalties_def score_params_def fpu_evals Let_def ln_sixteenth)

lemma replicate_10: "replicate 10 x = [x, x, x, x, x, x, x, x, x, x]"
  by (simp add: numeral_eq_Suc)

lemma replicate_20: "replicate 20 x = replicate 10 x @ replicate 10 x"
  by (simp add: replicate_add [symmetric])

lemma replicate_30: "replicate 30 x = replicate 10 x @ replicate 10 x @ replicate 10 x"
  by (simp add: replicate_add [symmetric])

text \<open>
  Counterexample to C9 as stated: on the input \<open>score_input\<close> the best score is
  \<open>20 ln (1/2)\<close> with bandwidth 2 and the smaller \<open>25 ln (1/2)\<close> with bandwidth 3. With
  bandwidth 2 the bands follow the trimmed events down to the last event before they
  turn right; with bandwidth 3 they turn right after the second band.
\<close>

theorem bandwidth_monotonicity_counterexample:
  "p_bandwidth (score_params 2) \<le> p_bandwidth (score_params 3) \<and>
   (generic_banded_simple_hmm ideal_fpu score_input (score_params 2) fresh_result
      \<bind> backtrack_scan ideal_fpu) = Some (Num (20 * ln (1 / 2)), 3) \<and>
   (generic_banded_simple_hmm ideal_fpu score_input (score_params 3) fresh_result
      \<bind> backtrack_scan ideal_fpu) = Some (Num (25 * ln (1 / 2)), 3) \<and>
   flt_lt (Num (25 * ln (1 / 2))) (Num (20 * ln (1 / 2)))"
proof -
  have nk: "size_t_add (size_t_sub (in_sequence_size score_input) (in_k score_input)) 1 = 4"
    by (simp add: score_input_def size_t_add_def size_t_sub_def)
  have ne: "in_n_events score_input = 4"
    by (simp add: score_input_def)
  have kr: "precompute_kmer_ranks score_input 4 = Some (map (in_kmer_rank score_input) [0..<4])"
    by (rule precompute_kmer_ranks_result) (simp_all add: score_input_def vector_max_size_def)
  have r2: "(generic_banded_simple_hmm ideal_fpu score_input (score_params 2) fresh_result
      \<bind> backtrack_scan ideal_fpu) = Some (Num (20 * ln (1 / 2)), 3)"
    unfolding generic_banded_simple_hmm_def Let_def nk ne kr score_transition_penalties
    by (simp add: score_input_def score_params_def fresh_result_def
        driver_evals store_evals fpu_evals replicate_20 replicate_10
        upto_rec1 upt_conv_Cons backtrack_scan_def backtrack_scan_step_def ln_sixteenth
        cong: option_bind_weak_cong split del: if_split)
  have r3: "(generic_banded_simple_hmm ideal_fpu score_input (score_params 3) fresh_result
      \<bind> backtrack_scan ideal_fpu) = Some (Num (25 * ln (1 / 2)), 3)"
    unfolding generic_banded_simple_hmm_def Let_def nk ne kr score_transition_penalties
    by (simp add: score_input_def score_params_def fresh_result_def
        driver_evals store_evals fpu_evals replicate_20 replicate_10 replicate_30
        upto_rec1 upt_conv_Cons backtrack_scan_def backtrack_scan_step_def ln_sixteenth
        cong: option_bind_weak_cong split del: if_split)
  show ?thesis using r2 r3 by (simp add: score_params_def)
qed


end
